theory Spec2Isabelle
  imports Complex_Main "HOL-Library.Word" "HOL-Library.Sublist"
begin

section \<open>rtl\_wave: the sample pipeline of \<^verbatim>\<open>rtl_wave.c\<close>\<close>

text \<open>
  The embedding follows \<^verbatim>\<open>src/rtl_wave.c\<close>. Bytes are \<open>8 word\<close>, \<^verbatim>\<open>uint32_t\<close> is
  \<open>32 word\<close>, \<^verbatim>\<open>uint64_t\<close> is \<open>64 word\<close>, so the arithmetic of the source wraps as it
  does in C. The \<^verbatim>\<open>float\<close> accumulators of the power monitor are modelled as real numbers:
  rounding is not modelled, and neither are the non-finite values which \<^verbatim>\<open>logf\<close> and a
  division give at zero. The device library, the clock and the output stream are outside
  the source file; they appear as parameters (the bytes each read delivers, the
  broken-down UTC time, the number of bytes the stream still accepts).
\<close>

type_synonym byte = "8 word"

subsection \<open>Constants\<close>

definition DEFAULT_SAMPLE_RATE :: "32 word" where
  "DEFAULT_SAMPLE_RATE = 2048000"

definition DEFAULT_BUF_LENGTH :: "32 word" where
  "DEFAULT_BUF_LENGTH = 16 * 16384"

definition MINIMAL_BUF_LENGTH :: "32 word" where
  "MINIMAL_BUF_LENGTH = 512"

definition MAXIMAL_BUF_LENGTH :: "32 word" where
  "MAXIMAL_BUF_LENGTH = 256 * 16384"

definition interval_seconds :: int where
  "interval_seconds = 2"

subsection \<open>Output block size (lines 293--302 of main)\<close>

text \<open>
  \<^verbatim>\<open>if (out_block_size < MINIMAL_BUF_LENGTH || out_block_size > MAXIMAL_BUF_LENGTH)
    out_block_size = DEFAULT_BUF_LENGTH;\<close>
  The comparison is unsigned, as \<open><\<close> on words is; the program goes on with the value
  returned here.
\<close>

definition check_block_size :: "32 word \<Rightarrow> 32 word" where
  "check_block_size out_block_size =
     (if out_block_size < MINIMAL_BUF_LENGTH \<or> out_block_size > MAXIMAL_BUF_LENGTH
      then DEFAULT_BUF_LENGTH else out_block_size)"

subsection \<open>The output stream\<close>

text \<open>
  A \<^verbatim>\<open>FILE\<close> is the bytes written so far and the number of bytes the destination still
  accepts. \<^verbatim>\<open>fwrite(p, 1, n, file)\<close> appends as many of the \<open>n\<close> bytes as fit and returns
  their number: a short write is a return value below \<open>n\<close>.
\<close>

record FILE =
  written :: "byte list"
  room :: nat

definition fwrite :: "byte list \<Rightarrow> FILE \<Rightarrow> FILE \<times> nat" where
  "fwrite bs f =
     (let k = min (length bs) (room f)
      in (f\<lparr>written := written f @ take k bs, room := room f - k\<rparr>, k))"

subsection \<open>SampleConverter\<close>

text \<open>
  \<^verbatim>\<open>for (int n=0; n<n_read; n++) buffer[n] = buffer[n] - 128;\<close>
  The byte is promoted to \<^verbatim>\<open>int\<close>, 128 is subtracted and the result is stored back into
  an \<^verbatim>\<open>unsigned char\<close>: subtraction modulo 256, which is \<open>-\<close> on \<open>8 word\<close>. The loop
  runs over the indices below \<open>len\<close> and updates the buffer in place.
\<close>

function convert_loop :: "byte list \<Rightarrow> nat \<Rightarrow> nat \<Rightarrow> byte list" where
  "convert_loop buf n len =
     (if n < len then convert_loop (buf[n := buf ! n - 128]) (n + 1) len else buf)"
  by pat_completeness auto
termination
  by (relation "measure (\<lambda>(buf, n, len). len - n)") auto

declare convert_loop.simps [simp del]

definition sample_convert :: "byte list \<Rightarrow> nat \<Rightarrow> byte list" where
  "sample_convert buf len = convert_loop buf 0 len"

subsection \<open>The container header\<close>

text \<open>
  The four packed structs of the source. A \<^verbatim>\<open>char[4]\<close> tag is a list of four bytes.
  \<^verbatim>\<open>fwrite\<close> writes a struct as it lies in memory: the fields in declaration order
  without padding (\<^verbatim>\<open>__attribute__((packed))\<close>), each multi-byte field in the byte
  order of the host, taken to be little-endian here.
\<close>

record datetime_t =
  year :: "16 word"
  month :: "16 word"
  day_of_week :: "16 word"
  day :: "16 word"
  hour :: "16 word"
  minute :: "16 word"
  second :: "16 word"
  milliseconds :: "16 word"

record riff_t =
  riff_id :: "byte list"
  riff_size :: "32 word"
  riff_type :: "byte list"

record fmt_t =
  format_tag :: "16 word"
  channels :: "16 word"
  samples_per_sec :: "32 word"
  data_rate :: "32 word"
  block_size :: "16 word"
  bits_per_sample :: "16 word"

record auxi_t =
  start_time :: datetime_t
  stop_time :: datetime_t
  frequency :: "32 word"
  sample_frequency :: "32 word"
  if_frequency :: "32 word"
  bandwidth :: "32 word"
  dc_offset :: "32 word"

record chunk_t =
  chunk_id :: "byte list"
  chunk_size :: "32 word"

text \<open>The fields of \<^verbatim>\<open>struct tm\<close> which \<^verbatim>\<open>set_datetime\<close> reads, as \<^verbatim>\<open>gmtime\<close> gives them.\<close>

record tm =
  tm_year :: int
  tm_mon :: int
  tm_mday :: int
  tm_hour :: int
  tm_min :: int
  tm_sec :: int

definition le16 :: "16 word \<Rightarrow> byte list" where
  "le16 w = [ucast w, ucast (drop_bit 8 w)]"

definition le32 :: "32 word \<Rightarrow> byte list" where
  "le32 w = [ucast w, ucast (drop_bit 8 w), ucast (drop_bit 16 w), ucast (drop_bit 24 w)]"

definition datetime_bytes :: "datetime_t \<Rightarrow> byte list" where
  "datetime_bytes dt =
     le16 (year dt) @ le16 (month dt) @ le16 (day_of_week dt) @ le16 (day dt) @
     le16 (hour dt) @ le16 (minute dt) @ le16 (second dt) @ le16 (milliseconds dt)"

definition riff_bytes :: "riff_t \<Rightarrow> byte list" where
  "riff_bytes r = riff_id r @ le32 (riff_size r) @ riff_type r"

definition fmt_bytes :: "fmt_t \<Rightarrow> byte list" where
  "fmt_bytes f =
     le16 (format_tag f) @ le16 (channels f) @ le32 (samples_per_sec f) @
     le32 (data_rate f) @ le16 (block_size f) @ le16 (bits_per_sample f)"

definition auxi_bytes :: "auxi_t \<Rightarrow> byte list" where
  "auxi_bytes a =
     datetime_bytes (start_time a) @ datetime_bytes (stop_time a) @
     le32 (frequency a) @ le32 (sample_frequency a) @ le32 (if_frequency a) @
     le32 (bandwidth a) @ le32 (dc_offset a)"

definition chunk_bytes :: "chunk_t \<Rightarrow> byte list" where
  "chunk_bytes c = chunk_id c @ le32 (chunk_size c)"

definition sizeof_datetime_t :: nat where
  "sizeof_datetime_t = 8 * 2"

definition sizeof_fmt_t :: nat where
  "sizeof_fmt_t = 2 + 2 + 4 + 4 + 2 + 2"

definition sizeof_auxi_t :: nat where
  "sizeof_auxi_t = sizeof_datetime_t + sizeof_datetime_t + 5 * 4"

text \<open>\<^verbatim>\<open>memset(&x, 0, sizeof x)\<close> for each struct.\<close>

definition zero_datetime :: datetime_t where
  "zero_datetime = \<lparr>year = 0, month = 0, day_of_week = 0, day = 0,
                     hour = 0, minute = 0, second = 0, milliseconds = 0\<rparr>"

definition zero_riff :: riff_t where
  "zero_riff = \<lparr>riff_id = replicate 4 0, riff_size = 0, riff_type = replicate 4 0\<rparr>"

definition zero_fmt :: fmt_t where
  "zero_fmt = \<lparr>format_tag = 0, channels = 0, samples_per_sec = 0, data_rate = 0,
                block_size = 0, bits_per_sample = 0\<rparr>"

definition zero_auxi :: auxi_t where
  "zero_auxi = \<lparr>start_time = zero_datetime, stop_time = zero_datetime, frequency = 0,
                 sample_frequency = 0, if_frequency = 0, bandwidth = 0, dc_offset = 0\<rparr>"

definition zero_chunk :: chunk_t where
  "zero_chunk = \<lparr>chunk_id = replicate 4 0, chunk_size = 0\<rparr>"

text \<open>
  \<^verbatim>\<open>strncpy(dst, src, n)\<close>: the first \<open>n\<close> characters of \<open>src\<close>, padded with zero bytes
  when \<open>src\<close> is shorter.
\<close>

definition strncpy :: "string \<Rightarrow> nat \<Rightarrow> byte list" where
  "strncpy src n = take n (map (\<lambda>c. word_of_nat (of_char c)) src @ replicate n 0)"

text \<open>
  \<^verbatim>\<open>set_datetime\<close>: six fields are assigned from the UTC time, each truncated to 16 bits
  by the assignment; \<^verbatim>\<open>day_of_week\<close> and \<^verbatim>\<open>milliseconds\<close> are left as they were.
\<close>

definition set_datetime :: "tm \<Rightarrow> datetime_t \<Rightarrow> datetime_t" where
  "set_datetime t dt =
     dt\<lparr>year := word_of_int (tm_year t + 1900),
        month := word_of_int (tm_mon t + 1),
        day := word_of_int (tm_mday t),
        hour := word_of_int (tm_hour t),
        minute := word_of_int (tm_min t),
        second := word_of_int (tm_sec t)\<rparr>"

text \<open>
  \<^verbatim>\<open>if (fwrite(p, 1, n, file) != n) exit(1);\<close>
  \<open>Inl 1\<close> is the process leaving with status 1.
\<close>

definition write_or_exit :: "byte list \<Rightarrow> FILE \<Rightarrow> int + FILE" where
  "write_or_exit bs file =
     (case fwrite bs file of (file', k) \<Rightarrow> if k \<noteq> length bs then Inl 1 else Inr file')"

text \<open>
  \<^verbatim>\<open>wave_header\<close>. In \<^verbatim>\<open>fmt.channels * fmt.bits_per_sample / 8 * fmt.samples_per_sec\<close> the
  two 16-bit fields are promoted to \<^verbatim>\<open>int\<close>, multiplied and divided by 8 there, and the
  product with the 32-bit sample rate is taken modulo \<open>2 ^ 32\<close>. The parameter
  \<^verbatim>\<open>bits_per_sample\<close> is 32 bits wide and is cut to the 16-bit field. The last chunk header
  reuses the variable \<^verbatim>\<open>chunk\<close> without clearing it.
\<close>

definition wave_header :: "FILE \<Rightarrow> 32 word \<Rightarrow> 32 word \<Rightarrow> 32 word \<Rightarrow> tm \<Rightarrow> int + FILE" where
  "wave_header file samp_rate freq bits now =
    (let riff = zero_riff\<lparr>riff_id := strncpy ''RIFF'' 4, riff_type := strncpy ''WAVE'' 4,
                          riff_size := - 1\<rparr>
     in case write_or_exit (riff_bytes riff) file of Inl e \<Rightarrow> Inl e | Inr file1 \<Rightarrow>
    (let chunk1 = zero_chunk\<lparr>chunk_id := strncpy ''fmt '' 4,
                             chunk_size := word_of_nat sizeof_fmt_t\<rparr>
     in case write_or_exit (chunk_bytes chunk1) file1 of Inl e \<Rightarrow> Inl e | Inr file2 \<Rightarrow>
    (let fmt1 = zero_fmt\<lparr>format_tag := 1, channels := 2, bits_per_sample := ucast bits,
                         samples_per_sec := samp_rate\<rparr>;
         fmt2 = fmt1\<lparr>data_rate :=
                  word_of_nat (unat (channels fmt1) * unat (bits_per_sample fmt1) div 8)
                    * samples_per_sec fmt1\<rparr>;
         fmt3 = fmt2\<lparr>block_size :=
                  word_of_nat (unat (channels fmt2) * unat (bits_per_sample fmt2) div 8)\<rparr>
     in case write_or_exit (fmt_bytes fmt3) file2 of Inl e \<Rightarrow> Inl e | Inr file3 \<Rightarrow>
    (let chunk2 = zero_chunk\<lparr>chunk_id := strncpy ''auxi'' 4,
                             chunk_size := word_of_nat sizeof_auxi_t\<rparr>
     in case write_or_exit (chunk_bytes chunk2) file3 of Inl e \<Rightarrow> Inl e | Inr file4 \<Rightarrow>
    (let auxi1 = zero_auxi\<lparr>frequency := freq\<rparr>;
         auxi2 = auxi1\<lparr>start_time := set_datetime now (start_time auxi1)\<rparr>
     in case write_or_exit (auxi_bytes auxi2) file4 of Inl e \<Rightarrow> Inl e | Inr file5 \<Rightarrow>
    (let chunk3 = chunk2\<lparr>chunk_id := strncpy ''data'' 4, chunk_size := - 1\<rparr>
     in write_or_exit (chunk_bytes chunk3) file5))))))"

subsection \<open>PowerMonitor (lines 392--412 of main)\<close>

text \<open>
  The five local variables of \<^verbatim>\<open>main\<close>. \<^verbatim>\<open>interval\<close> is an \<^verbatim>\<open>int\<close>; it is a 32-bit word
  here, read as signed where the source converts it to \<^verbatim>\<open>float\<close> and as unsigned where
  the source compares it with the unsigned product \<^verbatim>\<open>samp_rate * interval_seconds\<close>.
\<close>

record monitor =
  interval :: "32 word"
  ipeak :: real
  qpeak :: real
  iavg :: real
  qavg :: real

definition monitor_zero :: monitor where
  "monitor_zero = \<lparr>interval = 0, ipeak = 0, qpeak = 0, iavg = 0, qavg = 0\<rparr>"

text \<open>\<^verbatim>\<open>(float) (buffer[i] - 128) / 128\<close>: the byte is promoted to \<^verbatim>\<open>int\<close> first.\<close>

definition normalize :: "byte \<Rightarrow> real" where
  "normalize b = real_of_int (uint b - 128) / 128"

text \<open>
  The body of the loop over the pairs. The squares and the peaks are exact in the
  source too (a square is a multiple of \<open>2\<^sup>-\<^sup>1\<^sup>4\<close> of at most 15 bits); the two
  sums are exact here, where the source rounds every \<^verbatim>\<open>iavg += ival\<close> to a \<^verbatim>\<open>float\<close>.
\<close>

definition accum_pair :: "byte \<Rightarrow> byte \<Rightarrow> monitor \<Rightarrow> monitor" where
  "accum_pair b0 b1 m =
     (let ival = normalize b0 * normalize b0;
          qval = normalize b1 * normalize b1;
          m1 = m\<lparr>iavg := iavg m + ival, qavg := qavg m + qval\<rparr>;
          m2 = (if ival > ipeak m1 then m1\<lparr>ipeak := ival\<rparr> else m1)
      in (if qval > qpeak m2 then m2\<lparr>qpeak := qval\<rparr> else m2))"

text \<open>
  \<^verbatim>\<open>for (int i=0; i < n_read; i += 2)\<close>, reading \<^verbatim>\<open>buffer[i]\<close> and \<^verbatim>\<open>buffer[i+1]\<close>. The
  buffer is the whole allocated array; a read at an index outside it has no defined
  result, which is \<open>None\<close>.
\<close>

function power_loop :: "byte list \<Rightarrow> nat \<Rightarrow> nat \<Rightarrow> monitor \<Rightarrow> monitor option" where
  "power_loop buffer n_read i m =
     (if i < n_read
      then (if i + 1 < length buffer
            then power_loop buffer n_read (i + 2) (accum_pair (buffer ! i) (buffer ! (i + 1)) m)
            else None)
      else Some m)"
  by pat_completeness auto
termination
  by (relation "measure (\<lambda>(buffer, n_read, i, m). n_read - i)") auto

declare power_loop.simps [simp del]

text \<open>\<^verbatim>\<open>float db(float x) { return 10 * logf(x); }\<close>: \<^verbatim>\<open>logf\<close> is the natural logarithm.\<close>

definition db :: "real \<Rightarrow> real" where
  "db x = 10 * ln x"

text \<open>The four numbers of one line \<^verbatim>\<open>PEAK .. | .. dBFS   PAR .. | .. dB\<close>.\<close>

record report =
  peak_i :: real
  peak_q :: real
  par_i :: real
  par_q :: real

text \<open>\<^verbatim>\<open>interval += n_read / 2\<close> after the loop.\<close>

definition accumulate :: "byte list \<Rightarrow> nat \<Rightarrow> monitor \<Rightarrow> monitor option" where
  "accumulate buffer n_read m =
     (case power_loop buffer n_read 0 m of
        None \<Rightarrow> None
      | Some m1 \<Rightarrow> Some (m1\<lparr>interval := interval m1 + word_of_nat (n_read div 2)\<rparr>))"

text \<open>\<^verbatim>\<open>interval > samp_rate * interval_seconds\<close>, an unsigned 32-bit comparison.\<close>

definition interval_elapsed :: "32 word \<Rightarrow> monitor \<Rightarrow> bool" where
  "interval_elapsed samp_rate m \<longleftrightarrow> samp_rate * word_of_int interval_seconds < interval m"

text \<open>
  \<^verbatim>\<open>iavg /= interval; qavg /= interval;\<close> and the arguments of \<^verbatim>\<open>fprintf\<close>. The
  quotients are the exact means; the source holds the \<^verbatim>\<open>float\<close> quotient of the
  \<^verbatim>\<open>float\<close> sum.
\<close>

definition imean :: "monitor \<Rightarrow> real" where
  "imean m = iavg m / real_of_int (sint (interval m))"

definition qmean :: "monitor \<Rightarrow> real" where
  "qmean m = qavg m / real_of_int (sint (interval m))"

definition report_line :: "monitor \<Rightarrow> report" where
  "report_line m =
     \<lparr>peak_i = db (ipeak m), peak_q = db (qpeak m),
      par_i = db (ipeak m / imean m), par_q = db (qpeak m / qmean m)\<rparr>"

definition power_monitor ::
  "32 word \<Rightarrow> byte list \<Rightarrow> nat \<Rightarrow> monitor \<Rightarrow> (monitor \<times> report list) option" where
  "power_monitor samp_rate buffer n_read m =
     (case accumulate buffer n_read m of
        None \<Rightarrow> None
      | Some m1 \<Rightarrow>
          Some (if interval_elapsed samp_rate m1
                then (monitor_zero, [report_line m1])
                else (m1, [])))"

text \<open>
  The accumulators at each reporting instant of a sequence of reads (each read is the
  buffer and its \<^verbatim>\<open>n_read\<close>), just before they are printed and reset.
\<close>

fun reporting_instants :: "32 word \<Rightarrow> (byte list \<times> nat) list \<Rightarrow> monitor \<Rightarrow> monitor list" where
  "reporting_instants samp_rate [] m = []"
| "reporting_instants samp_rate ((buffer, n_read) # rest) m =
     (case accumulate buffer n_read m of
        None \<Rightarrow> []
      | Some m1 \<Rightarrow>
          if interval_elapsed samp_rate m1
          then m1 # reporting_instants samp_rate rest monitor_zero
          else reporting_instants samp_rate rest m1)"

text \<open>The lines which the monitor prints over the same sequence of reads.\<close>

fun monitor_lines :: "32 word \<Rightarrow> (byte list \<times> nat) list \<Rightarrow> monitor \<Rightarrow> report list" where
  "monitor_lines samp_rate [] m = []"
| "monitor_lines samp_rate ((buffer, n_read) # rest) m =
     (case power_monitor samp_rate buffer n_read m of
        None \<Rightarrow> []
      | Some (m', lines) \<Rightarrow> lines @ monitor_lines samp_rate rest m')"

subsection \<open>The capture loop\<close>

text \<open>
  The state of a capture: the globals \<^verbatim>\<open>do_exit\<close> and \<^verbatim>\<open>bytes_to_read\<close>, the output
  stream, the read buffer (\<^verbatim>\<open>malloc(out_block_size)\<close>, reused by every read), the
  accumulators, the report lines printed so far, and whether
  \<^verbatim>\<open>rtlsdr_cancel_async\<close> has been called.
\<close>

record capture =
  do_exit :: bool
  bytes_to_read :: "64 word"
  "file" :: FILE
  buffer :: "byte list"
  mon :: monitor
  reports :: "report list"
  cancel_async :: bool

text \<open>What \<^verbatim>\<open>rtlsdr_read_sync\<close> does: it fails (\<open>r < 0\<close>) or delivers some bytes.\<close>

datatype read_result = Read_error | Read_ok "byte list"

text \<open>Why the loop was left; \<open>Awaiting_read\<close>: it was not, and the next read is pending.\<close>

datatype stop = Do_exit | Read_failed | Short_write | Short_read | Out_of_bounds | Awaiting_read

text \<open>
  One pass through the body of \<^verbatim>\<open>while (!do_exit)\<close> in synchronous mode. The device
  stores at most \<^verbatim>\<open>out_block_size\<close> bytes at the start of the buffer and \<^verbatim>\<open>n_read\<close> is
  their number. \<open>Some\<close> reason: a \<^verbatim>\<open>break\<close>, or the read outside the buffer.
\<close>

definition sync_iter ::
  "32 word \<Rightarrow> 32 word \<Rightarrow> read_result \<Rightarrow> capture \<Rightarrow> capture \<times> stop option" where
  "sync_iter samp_rate out_block_size rd s =
    (case rd of
       Read_error \<Rightarrow> (s, Some Read_failed)
     | Read_ok data \<Rightarrow>
        (let n0 = min (length data) (unat out_block_size);
             buf = take n0 data @ drop n0 (buffer s);
             cut = (bytes_to_read s > 0 \<and> bytes_to_read s < word_of_nat n0);
             n_read = (if cut then unat (bytes_to_read s) else n0);
             s1 = s\<lparr>buffer := buf, do_exit := (cut \<or> do_exit s)\<rparr>
         in case power_monitor samp_rate buf n_read (mon s1) of
              None \<Rightarrow> (s1, Some Out_of_bounds)
            | Some (m, lines) \<Rightarrow>
               (let buf' = sample_convert buf n_read;
                    (file', k) = fwrite (take n_read buf') (file s1);
                    s2 = s1\<lparr>mon := m, reports := reports s1 @ lines, buffer := buf',
                            file := file'\<rparr>
                in if k \<noteq> n_read then (s2, Some Short_write)
                   else if n_read < unat out_block_size then (s2, Some Short_read)
                   else if bytes_to_read s2 > 0
                   then (s2\<lparr>bytes_to_read := bytes_to_read s2 - word_of_nat n_read\<rparr>, None)
                   else (s2, None))))"

text \<open>
  The loop over the reads the device answers. When they are used up and the loop has not
  been left, the program is blocked in the next read.
\<close>

fun sync_loop ::
  "32 word \<Rightarrow> 32 word \<Rightarrow> read_result list \<Rightarrow> capture \<Rightarrow> capture \<times> stop" where
  "sync_loop samp_rate out_block_size [] s =
     (s, if do_exit s then Do_exit else Awaiting_read)"
| "sync_loop samp_rate out_block_size (rd # rds) s =
     (if do_exit s then (s, Do_exit)
      else case sync_iter samp_rate out_block_size rd s of
             (s', Some why) \<Rightarrow> (s', why)
           | (s', None) \<Rightarrow> sync_loop samp_rate out_block_size rds s')"

text \<open>
  \<^verbatim>\<open>rtlsdr_callback(buf, len, ctx)\<close>, called by the device library once per buffer in
  asynchronous mode; \<open>buf\<close> is the library's buffer of \<open>len\<close> bytes and \<open>ctx\<close> tells
  whether the context pointer (the output stream) is non-null. It returns the buffer as
  it leaves it and the new state.
\<close>

definition rtlsdr_callback :: "byte list \<Rightarrow> bool \<Rightarrow> capture \<Rightarrow> byte list \<times> capture" where
  "rtlsdr_callback buf ctx s =
    (if ctx then
       if do_exit s then (buf, s)
       else
        (let cut = (bytes_to_read s > 0 \<and> bytes_to_read s < word_of_nat (length buf));
             len = (if cut then unat (bytes_to_read s) else length buf);
             s1 = (if cut then s\<lparr>do_exit := True, cancel_async := True\<rparr> else s);
             buf' = sample_convert buf len;
             (file', k) = fwrite (take len buf') (file s1);
             s2 = s1\<lparr>file := file'\<rparr>;
             s3 = (if k \<noteq> len then s2\<lparr>cancel_async := True\<rparr> else s2)
         in (buf', if bytes_to_read s3 > 0
                   then s3\<lparr>bytes_to_read := bytes_to_read s3 - word_of_nat len\<rparr>
                   else s3))
     else (buf, s))"

text \<open>
  \<^verbatim>\<open>main\<close> from the header on, in synchronous mode: the header is written first, then
  the loop runs. \<open>Inl 1\<close> is \<^verbatim>\<open>exit(1)\<close> inside \<^verbatim>\<open>wave_header\<close>, called with 8 bits per
  sample.
\<close>

definition capture_sync ::
  "32 word \<Rightarrow> 32 word \<Rightarrow> 32 word \<Rightarrow> tm \<Rightarrow> read_result list \<Rightarrow> capture \<Rightarrow>
   int + capture \<times> stop" where
  "capture_sync samp_rate freq out_block_size now rds s =
     (case wave_header (file s) samp_rate freq 8 now of
        Inl e \<Rightarrow> Inl e
      | Inr file' \<Rightarrow> Inr (sync_loop samp_rate out_block_size rds (s\<lparr>file := file'\<rparr>)))"

text \<open>
  The state in which \<^verbatim>\<open>main\<close> reaches the header: \<^verbatim>\<open>do_exit\<close> is clear, the budget is
  what \<^verbatim>\<open>-n\<close> set, the accumulators are zero, nothing has been printed, and the buffer
  holds whatever \<^verbatim>\<open>malloc\<close> returned.
\<close>

definition start_capture :: "64 word \<Rightarrow> FILE \<Rightarrow> byte list \<Rightarrow> capture" where
  "start_capture budget out heap =
     \<lparr>do_exit = False, bytes_to_read = budget, file = out, buffer = heap,
      mon = monitor_zero, reports = [], cancel_async = False\<rparr>"

subsection \<open>The behaviour the specification describes\<close>

text \<open>
  The definitions of this subsection are not taken from the source. They say, in the
  words of the specification, what the header holds and how the monitor walks a buffer
  pair by pair; the theorems compare the functions above with them.
\<close>

text \<open>The stream after \<open>bs\<close> has been written in full.\<close>

definition appended :: "FILE \<Rightarrow> byte list \<Rightarrow> FILE" where
  "appended f bs = f\<lparr>written := written f @ bs, room := room f - length bs\<rparr>"

text \<open>A four-character tag as its ASCII codes.\<close>

definition tag :: "string \<Rightarrow> byte list" where
  "tag s = map (\<lambda>c. word_of_nat (of_char c)) s"

text \<open>
  The format body: PCM code 1, 2 channels, the sample rate, the byte rate
  channels \<open>\<times>\<close> bytes per sample \<open>\<times>\<close> sample rate, the block alignment
  channels \<open>\<times>\<close> bytes per sample, and the bits per sample.
\<close>

definition spec_fmt_body :: "32 word \<Rightarrow> nat \<Rightarrow> byte list" where
  "spec_fmt_body samp_rate bytes_per_sample =
     le16 1 @ le16 2 @ le32 samp_rate @
     le32 (2 * word_of_nat bytes_per_sample * samp_rate) @
     le16 (2 * word_of_nat bytes_per_sample) @
     le16 (8 * word_of_nat bytes_per_sample)"

text \<open>The UTC time as a datetime: year, month, a zero weekday, day, hour, minute,
  second and zero milliseconds.\<close>

definition spec_utc :: "tm \<Rightarrow> byte list" where
  "spec_utc now =
     le16 (word_of_int (tm_year now + 1900)) @ le16 (word_of_int (tm_mon now + 1)) @
     le16 0 @ le16 (word_of_int (tm_mday now)) @ le16 (word_of_int (tm_hour now)) @
     le16 (word_of_int (tm_min now)) @ le16 (word_of_int (tm_sec now)) @ le16 0"

text \<open>
  The auxiliary body: the start time, a zeroed stop time, the center frequency and
  zeros for the four remaining 32-bit fields.
\<close>

definition spec_auxi_body :: "32 word \<Rightarrow> tm \<Rightarrow> byte list" where
  "spec_auxi_body freq now =
     spec_utc now @ replicate 16 0 @ le32 freq @ replicate 16 0"

definition spec_header :: "32 word \<Rightarrow> 32 word \<Rightarrow> nat \<Rightarrow> tm \<Rightarrow> byte list" where
  "spec_header samp_rate freq bytes_per_sample now =
     tag ''RIFF'' @ le32 (- 1) @ tag ''WAVE'' @
     tag ''fmt '' @ le32 (word_of_nat (length (spec_fmt_body samp_rate bytes_per_sample))) @
       spec_fmt_body samp_rate bytes_per_sample @
     tag ''auxi'' @ le32 (word_of_nat (length (spec_auxi_body freq now))) @
       spec_auxi_body freq now @
     tag ''data'' @ le32 (- 1)"

text \<open>
  The number of bytes of a delivery of \<open>n\<close> bytes that a budget lets through: all of
  them when the budget is unset (zero) or not below \<open>n\<close>, and the budget otherwise.
\<close>

definition limited :: "64 word \<Rightarrow> nat \<Rightarrow> nat" where
  "limited budget n = (if budget > 0 \<and> budget < word_of_nat n then unat budget else n)"

text \<open>The interleaved pairs of a byte sequence; a trailing single byte belongs to no pair.\<close>

fun pairs :: "byte list \<Rightarrow> (byte \<times> byte) list" where
  "pairs (a # b # rest) = (a, b) # pairs rest"
| "pairs _ = []"

text \<open>
  One pair as the specification words it: each byte normalised and squared, the peak
  the maximum so far, the sum increased by the square.
\<close>

definition spec_pair :: "byte \<times> byte \<Rightarrow> monitor \<Rightarrow> monitor" where
  "spec_pair p m =
     m\<lparr>ipeak := max (ipeak m) ((normalize (fst p))\<^sup>2),
       qpeak := max (qpeak m) ((normalize (snd p))\<^sup>2),
       iavg := iavg m + (normalize (fst p))\<^sup>2,
       qavg := qavg m + (normalize (snd p))\<^sup>2\<rparr>"

text \<open>A whole buffer: every pair in turn, and the counter increased by the number of pairs.\<close>

definition spec_accumulate :: "byte list \<Rightarrow> monitor \<Rightarrow> monitor" where
  "spec_accumulate bs m =
     (let m1 = fold spec_pair (pairs bs) m
      in m1\<lparr>interval := interval m1 + word_of_nat (length (pairs bs))\<rparr>)"


section \<open>Properties\<close>

subsection \<open>SampleConverter\<close>

lemma convert_loop_length: "length (convert_loop buf n len) = length buf"
proof (induction buf n len rule: convert_loop.induct)
  case (1 buf n len)
  show ?case
  proof (cases "n < len")
    case True
    with 1 show ?thesis by (subst convert_loop.simps) simp
  next
    case False
    then show ?thesis by (subst convert_loop.simps) simp
  qed
qed

lemma convert_loop_nth:
  "i < length buf \<Longrightarrow>
   convert_loop buf n len ! i = (if n \<le> i \<and> i < len then buf ! i - 128 else buf ! i)"
proof (induction buf n len rule: convert_loop.induct)
  case (1 buf n len)
  show ?case
  proof (cases "n < len")
    case True
    have "convert_loop buf n len = convert_loop (buf[n := buf ! n - 128]) (n + 1) len"
      using True by (subst convert_loop.simps) simp
    moreover have "convert_loop (buf[n := buf ! n - 128]) (n + 1) len ! i =
        (if n + 1 \<le> i \<and> i < len then buf[n := buf ! n - 128] ! i - 128
         else buf[n := buf ! n - 128] ! i)"
      using 1 True by simp
    ultimately show ?thesis
      using 1(2) True by (cases "i = n") (auto simp: nth_list_update)
  next
    case False
    then show ?thesis by (subst convert_loop.simps) simp
  qed
qed

lemma sample_convert_eq:
  "sample_convert buf len =
     map (\<lambda>b. b - 128) (take len buf) @ drop len buf"
proof (rule nth_equalityI)
  show "length (sample_convert buf len) =
        length (map (\<lambda>b. b - 128) (take len buf) @ drop len buf)"
    by (simp add: sample_convert_def convert_loop_length)
next
  fix i
  assume "i < length (sample_convert buf len)"
  then have i: "i < length buf"
    by (simp add: sample_convert_def convert_loop_length)
  then show "sample_convert buf len ! i =
      (map (\<lambda>b. b - 128) (take len buf) @ drop len buf) ! i"
    by (auto simp: sample_convert_def convert_loop_nth nth_append min_def)
qed

lemma sample_convert_twice: "sample_convert (sample_convert buf len) len = buf"
  by (rule nth_equalityI)
    (simp_all add: sample_convert_def convert_loop_length convert_loop_nth)

text \<open>
  C5, as the code has it. The in-place loop is the elementwise map \<open>b \<mapsto> b - 128\<close> over
  the first \<open>len\<close> bytes, of unchanged length, and the byte stored is
  \<open>(b - 128) mod 256\<close>. Subtracting 128 modulo 256 is the same as adding 128, so the
  transform is its own inverse: applied a second time it gives the original bytes back.
  It is therefore not idempotent on a non-empty range, since the second application
  changes the result of the first.
\<close>

theorem sample_convert_involution:
  "sample_convert buf len = map (\<lambda>b. b - 128) (take len buf) @ drop len buf \<and>
   length (sample_convert buf len) = length buf \<and>
   uint ((b::byte) - 128) = (uint b - 128) mod 256 \<and>
   b - 128 = b + 128 \<and>
   sample_convert (sample_convert buf len) len = buf \<and>
   (0 < len \<and> buf \<noteq> [] \<longrightarrow>
      sample_convert (sample_convert buf len) len \<noteq> sample_convert buf len)"
proof -
  have "sample_convert (sample_convert buf len) len \<noteq> sample_convert buf len"
    if "0 < len" "buf \<noteq> []"
  proof
    assume "sample_convert (sample_convert buf len) len = sample_convert buf len"
    then have "buf ! 0 = sample_convert buf len ! 0"
      by (simp add: sample_convert_twice)
    with that show False
      by (simp add: sample_convert_def convert_loop_nth)
  qed
  moreover have "length (sample_convert buf len) = length buf"
    by (simp add: sample_convert_def convert_loop_length)
  moreover have "uint (b - 128) = (uint b - 128) mod 256"
    by (simp add: uint_word_ariths)
  moreover have "b - 128 = b + 128"
    by simp
  ultimately show ?thesis
    using sample_convert_eq [of buf len] sample_convert_twice [of buf len] by blast
qed

theorem sample_convert_involution_witness:
  "sample_convert [0, 255, 128, 5] 3 = [128, 127, 0, 5] \<and>
   uint ((3::byte) - 128) = 131 \<and>
   sample_convert (sample_convert [0, 255, 128, 5] 3) 3 = [0, 255, 128, 5] \<and>
   sample_convert (sample_convert [0, 255, 128, 5] 3) 3 \<noteq> sample_convert [0, 255, 128, 5] 3"
proof -
  have h: "0 < (3::nat) \<and> [0, 255, 128, 5::byte] \<noteq> []"
    by simp
  have e: "map (\<lambda>b. b - 128) (take 3 [0, 255, 128, 5::byte]) @ drop 3 [0, 255, 128, 5] =
      [128, 127, 0, 5]"
    by simp
  have u: "(uint (3::byte) - 128) mod 256 = 131"
    by simp
  from sample_convert_involution [of "[0, 255, 128, 5]" 3 3] h show ?thesis
    unfolding e u by blast
qed

text \<open>
  The claim as worded says that applying the same transform again does not give the
  original bytes back. On the bytes 200 and 7 it does.
\<close>

theorem sample_convert_reapply_counterexample:
  "\<not> (sample_convert (sample_convert [200, 7] 2) 2 \<noteq> [200, 7])"
  by (simp add: sample_convert_eq)

subsection \<open>Output block size\<close>

text \<open>
  C8. A requested block size below 512 or above \<open>256 * 16384\<close> is replaced by the
  default \<open>16 * 16384\<close>, and a size within the bounds is kept. The check returns a size
  in every case: the program does not stop there.
\<close>

theorem check_block_size_fallback:
  "(out_block_size < 512 \<or> out_block_size > 256 * 16384 \<longrightarrow>
      check_block_size out_block_size = 16 * 16384) \<and>
   (512 \<le> out_block_size \<and> out_block_size \<le> 256 * 16384 \<longrightarrow>
      check_block_size out_block_size = out_block_size)"
  by (auto simp: check_block_size_def MINIMAL_BUF_LENGTH_def MAXIMAL_BUF_LENGTH_def
      DEFAULT_BUF_LENGTH_def)

theorem check_block_size_fallback_witness:
  "check_block_size 511 = 262144 \<and> check_block_size 4194305 = 262144 \<and>
   check_block_size 512 = 512 \<and> check_block_size 4194304 = 4194304"
  using check_block_size_fallback [of 511] check_block_size_fallback [of 4194305]
    check_block_size_fallback [of 512] check_block_size_fallback [of 4194304]
  by simp

subsection \<open>The container header\<close>

lemma len_le16 [simp]: "length (le16 w) = 2" by (simp add: le16_def)
lemma len_le32 [simp]: "length (le32 w) = 4" by (simp add: le32_def)

lemma spec_header_length: "length (spec_header sr fr k now) = 104"
  by (simp add: spec_header_def spec_fmt_body_def spec_auxi_body_def spec_utc_def tag_def)

lemma write_or_exit_fits:
  "length bs \<le> room f \<Longrightarrow> write_or_exit bs f = Inr (appended f bs)"
  by (simp add: write_or_exit_def fwrite_def min_def Let_def appended_def)

lemma write_or_exit_short:
  "room f < length bs \<Longrightarrow> write_or_exit bs f = Inl 1"
  by (simp add: write_or_exit_def fwrite_def min_def Let_def)

lemma appended_appended: "appended (appended f a) b = appended f (a @ b)"
  by (simp add: appended_def)

lemma room_appended: "room (appended f a) = room f - length a"
  by (simp add: appended_def)

lemma zero_dt_bytes: "datetime_bytes zero_datetime = replicate 16 0"
  by (simp add: datetime_bytes_def zero_datetime_def le16_def numeral_eq_Suc)

lemma le16_zero: "le16 0 = [0, 0]"
  by (simp add: le16_def)

lemma le32_zero: "le32 0 = [0, 0, 0, 0]"
  by (simp add: le32_def)

lemma fmt_fields:
  assumes "bits = 8 * word_of_nat k" "k < 8192"
  shows "unat (2::16 word) * unat (ucast (bits::32 word) :: 16 word) div 8 = 2 * k"
    and "(ucast bits :: 16 word) = 8 * word_of_nat k"
proof -
  have small: "8 * k < 2 ^ 16" "8 * k < 2 ^ 32"
    using assms(2) by simp_all
  have b: "bits = word_of_nat (8 * k)"
    by (simp add: assms(1))
  have "unat (word_of_nat (8 * k) :: 32 word) = 8 * k"
    using small(2) by (intro of_nat_inverse [OF refl]) simp
  then have u: "unat bits = 8 * k"
    by (simp only: b)
  have "(ucast bits :: 16 word) = word_of_nat (unat bits)"
    by (simp add: of_nat_unat)
  then have c: "(ucast bits :: 16 word) = word_of_nat (8 * k)"
    by (simp only: u)
  then show "(ucast bits :: 16 word) = 8 * word_of_nat k"
    by simp
  have "unat (word_of_nat (8 * k) :: 16 word) = 8 * k"
    using small(1) by (intro of_nat_inverse [OF refl]) simp
  then have "unat (ucast bits :: 16 word) = 8 * k"
    by (simp only: c)
  then show "unat (2::16 word) * unat (ucast (bits::32 word) :: 16 word) div 8 = 2 * k"
    by simp
qed

lemma wave_header_fits:
  assumes "104 \<le> room f" "bits = 8 * word_of_nat k" "k < 8192"
  shows "wave_header f sr fr bits now = Inr (appended f (spec_header sr fr k now))"
proof -
  define b1 where "b1 = tag ''RIFF'' @ le32 (- 1) @ tag ''WAVE''"
  define b2 where "b2 = tag ''fmt '' @ le32 16"
  define b3 where "b3 = spec_fmt_body sr k"
  define b4 where "b4 = tag ''auxi'' @ le32 52"
  define b5 where "b5 = spec_auxi_body fr now"
  define b6 where "b6 = tag ''data'' @ le32 (- 1)"
  have len: "length b1 = 12" "length b2 = 8" "length b3 = 16" "length b4 = 8"
    "length b5 = 52" "length b6 = 8"
    by (simp_all add: b1_def b2_def b3_def b4_def b5_def b6_def tag_def spec_fmt_body_def
        spec_auxi_body_def spec_utc_def)
  have w1: "write_or_exit b1 f = Inr (appended f b1)"
    using assms(1) len by (simp add: write_or_exit_fits)
  have w2: "write_or_exit b2 (appended f b1) = Inr (appended f (b1 @ b2))"
    using assms(1) len by (simp add: write_or_exit_fits room_appended appended_appended)
  have w3: "write_or_exit b3 (appended f (b1 @ b2)) = Inr (appended f (b1 @ b2 @ b3))"
    using assms(1) len by (simp add: write_or_exit_fits room_appended appended_appended)
  have w4: "write_or_exit b4 (appended f (b1 @ b2 @ b3)) = Inr (appended f (b1 @ b2 @ b3 @ b4))"
    using assms(1) len by (simp add: write_or_exit_fits room_appended appended_appended)
  have w5: "write_or_exit b5 (appended f (b1 @ b2 @ b3 @ b4)) =
      Inr (appended f (b1 @ b2 @ b3 @ b4 @ b5))"
    using assms(1) len by (simp add: write_or_exit_fits room_appended appended_appended)
  have w6: "write_or_exit b6 (appended f (b1 @ b2 @ b3 @ b4 @ b5)) =
      Inr (appended f (b1 @ b2 @ b3 @ b4 @ b5 @ b6))"
    using assms(1) len by (simp add: write_or_exit_fits room_appended appended_appended)
  have s1: "riff_bytes (zero_riff\<lparr>riff_id := strncpy ''RIFF'' 4, riff_type := strncpy ''WAVE'' 4,
                          riff_size := - 1\<rparr>) = b1"
    by (simp add: riff_bytes_def b1_def strncpy_def tag_def)
  have s2: "chunk_bytes (zero_chunk\<lparr>chunk_id := strncpy ''fmt '' 4,
                             chunk_size := word_of_nat sizeof_fmt_t\<rparr>) = b2"
    by (simp add: chunk_bytes_def b2_def strncpy_def tag_def sizeof_fmt_t_def)
  have s4: "chunk_bytes (zero_chunk\<lparr>chunk_id := strncpy ''auxi'' 4,
                             chunk_size := word_of_nat sizeof_auxi_t\<rparr>) = b4"
    by (simp add: chunk_bytes_def b4_def strncpy_def tag_def sizeof_auxi_t_def sizeof_datetime_t_def)
  have s6: "chunk_bytes (zero_chunk\<lparr>chunk_id := strncpy ''auxi'' 4,
                             chunk_size := word_of_nat sizeof_auxi_t\<rparr>
                  \<lparr>chunk_id := strncpy ''data'' 4, chunk_size := - 1\<rparr>) = b6"
    by (simp add: chunk_bytes_def b6_def strncpy_def tag_def)
  have s5: "auxi_bytes (zero_auxi\<lparr>frequency := fr\<rparr>
       \<lparr>start_time := set_datetime now (start_time (zero_auxi\<lparr>frequency := fr\<rparr>))\<rparr>) = b5"
    by (simp add: auxi_bytes_def b5_def spec_auxi_body_def spec_utc_def zero_auxi_def
        set_datetime_def datetime_bytes_def zero_datetime_def le16_zero le32_zero
        numeral_eq_Suc)
  have s3: "fmt_bytes \<lparr>format_tag = 1, channels = 2, samples_per_sec = sr,
        data_rate = 2 * word_of_nat k * sr, block_size = 2 * word_of_nat k,
        bits_per_sample = 8 * word_of_nat k\<rparr> = b3"
    by (simp add: fmt_bytes_def b3_def spec_fmt_body_def)
  have hdr: "spec_header sr fr k now = b1 @ b2 @ b3 @ b4 @ b5 @ b6"
    using len by (simp add: spec_header_def b1_def b2_def b3_def b4_def b5_def b6_def)
  show ?thesis
    unfolding hdr wave_header_def Let_def s1 s2 s4 s5 s6
    using fmt_fields[OF assms(2,3)]
    by (simp add: w1 w2 w3 w4 w5 w6 s3 zero_fmt_def)
qed

subsection \<open>PowerMonitor\<close>

lemma accum_pair_spec: "accum_pair a b m = spec_pair (a, b) m"
  by (simp add: accum_pair_def spec_pair_def Let_def max_def power2_eq_square)

lemma length_pairs: "length (pairs bs) = length bs div 2"
  by (induction bs rule: pairs.induct) simp_all

lemma power_loop_even:
  "even i \<Longrightarrow> even n \<Longrightarrow> i \<le> n \<Longrightarrow> n \<le> length buf \<Longrightarrow>
   power_loop buf n i m = Some (fold spec_pair (pairs (drop i (take n buf))) m)"
proof (induction buf n i m rule: power_loop.induct)
  case (1 buf n_read i m)
  show ?case
  proof (cases "i < n_read")
    case True
    with 1 have i2: "i + 2 \<le> n_read" "i + 1 < length buf"
      by (auto elim!: evenE)
    have d: "drop i (take n_read buf) =
        buf ! i # buf ! (i + 1) # drop (i + 2) (take n_read buf)"
    proof -
      let ?t = "take n_read buf"
      have l: "i < length ?t" "Suc i < length ?t"
        using i2 1(5) by simp_all
      have "drop i ?t = ?t ! i # drop (Suc i) ?t"
        by (rule Cons_nth_drop_Suc [OF l(1), symmetric])
      also have "drop (Suc i) ?t = ?t ! Suc i # drop (Suc (Suc i)) ?t"
        by (rule Cons_nth_drop_Suc [OF l(2), symmetric])
      finally show ?thesis
        using i2 by simp
    qed
    have "power_loop buf n_read i m =
        power_loop buf n_read (i + 2) (accum_pair (buf ! i) (buf ! (i + 1)) m)"
      using True i2 by (subst power_loop.simps) simp
    also have "\<dots> = Some (fold spec_pair (pairs (drop (i + 2) (take n_read buf)))
        (accum_pair (buf ! i) (buf ! (i + 1)) m))"
      using 1 True i2 by simp
    finally show ?thesis
      by (simp add: d accum_pair_spec)
  next
    case False
    with 1 show ?thesis
      by (subst power_loop.simps) simp
  qed
qed

lemma power_loop_odd_end:
  "even i \<Longrightarrow> odd n \<Longrightarrow> i < n \<Longrightarrow> n = length buf \<Longrightarrow> power_loop buf n i m = None"
proof (induction buf n i m rule: power_loop.induct)
  case (1 buf n_read i m)
  show ?case
  proof (cases "i + 1 < length buf")
    case True
    with 1 have "i + 2 < n_read"
      by (auto elim!: evenE oddE)
    with 1 True show ?thesis
      by (subst power_loop.simps) simp
  next
    case False
    with 1 show ?thesis
      by (subst power_loop.simps) simp
  qed
qed

lemma accumulate_even:
  "even n \<Longrightarrow> n \<le> length buf \<Longrightarrow>
   accumulate buf n m = Some (spec_accumulate (take n buf) m)"
  by (simp add: accumulate_def power_loop_even spec_accumulate_def Let_def length_pairs)

subsection \<open>The capture loop\<close>

lemma fwrite_eq:
  "fwrite bs f = (appended f (take (room f) bs), min (length bs) (room f))"
  by (simp add: fwrite_def Let_def appended_def min_def)

lemma fwrite_fits:
  "length bs \<le> room f \<Longrightarrow> fwrite bs f = (appended f bs, length bs)"
  by (simp add: fwrite_eq min_def)

lemma written_appended: "written (appended f bs) = written f @ bs"
  by (simp add: appended_def)

lemma power_monitor_even:
  "even n \<Longrightarrow> n \<le> length buf \<Longrightarrow>
   power_monitor sr buf n m =
     Some (if interval_elapsed sr (spec_accumulate (take n buf) m)
           then (monitor_zero, [report_line (spec_accumulate (take n buf) m)])
           else (spec_accumulate (take n buf) m, []))"
  by (simp add: power_monitor_def accumulate_even)

lemma sync_iter_Read_ok:
  assumes "n0 = min (length data) (unat obs)"
    and "buf = take n0 data @ drop n0 (buffer s)"
    and "capped \<longleftrightarrow> bytes_to_read s > 0 \<and> bytes_to_read s < word_of_nat n0"
    and "n_read = (if capped then unat (bytes_to_read s) else n0)"
    and "s1 = s\<lparr>buffer := buf, do_exit := (capped \<or> do_exit s)\<rparr>"
  shows "sync_iter sr obs (Read_ok data) s =
     (case power_monitor sr buf n_read (mon s1) of
        None \<Rightarrow> (s1, Some Out_of_bounds)
      | Some (m, lines) \<Rightarrow>
         (let buf' = sample_convert buf n_read;
              (file', k) = fwrite (take n_read buf') (file s1);
              s2 = s1\<lparr>mon := m, reports := reports s1 @ lines, buffer := buf',
                      file := file'\<rparr>
          in if k \<noteq> n_read then (s2, Some Short_write)
             else if n_read < unat obs then (s2, Some Short_read)
             else if bytes_to_read s2 > 0
             then (s2\<lparr>bytes_to_read := bytes_to_read s2 - word_of_nat n_read\<rparr>, None)
             else (s2, None)))"
  unfolding sync_iter_def assms Let_def by simp

lemma sync_iter_prefix:
  "prefix (written (file s)) (written (file (fst (sync_iter sr obs rd s))))"
proof (cases rd)
  case Read_error
  then show ?thesis by (simp add: sync_iter_def)
next
  case (Read_ok data)
  define n0 where "n0 = min (length data) (unat obs)"
  define buf where "buf = take n0 data @ drop n0 (buffer s)"
  define capped where "capped \<longleftrightarrow> bytes_to_read s > 0 \<and> bytes_to_read s < word_of_nat n0"
  define n_read where "n_read = (if capped then unat (bytes_to_read s) else n0)"
  define s1 where "s1 = s\<lparr>buffer := buf, do_exit := (capped \<or> do_exit s)\<rparr>"
  note unf = sync_iter_Read_ok [OF n0_def buf_def capped_def n_read_def s1_def, of sr]
  have f1: "file s1 = file s" by (simp add: s1_def)
  show ?thesis
  proof (cases "power_monitor sr buf n_read (mon s1)")
    case None
    then show ?thesis by (simp add: Read_ok unf f1)
  next
    case (Some r)
    obtain m ls where r: "r = (m, ls)" by (cases r)
    show ?thesis
      by (simp add: Read_ok unf Some r Let_def fwrite_eq f1 written_appended)
  qed
qed

lemma sync_loop_prefix:
  "prefix (written (file s)) (written (file (fst (sync_loop sr obs rds s))))"
proof (induction rds arbitrary: s)
  case Nil
  show ?case by simp
next
  case (Cons rd rds)
  show ?case
  proof (cases "do_exit s")
    case True
    then show ?thesis by simp
  next
    case False
    obtain s' w where it: "sync_iter sr obs rd s = (s', w)"
      by (cases "sync_iter sr obs rd s")
    have p: "prefix (written (file s)) (written (file s'))"
      using sync_iter_prefix [of s sr obs rd] it by simp
    show ?thesis
    proof (cases w)
      case None
      with False it have "sync_loop sr obs (rd # rds) s = sync_loop sr obs rds s'"
        by simp
      with p Cons.IH [of s'] show ?thesis
        by (metis prefix_order.trans)
    next
      case (Some why)
      with False it p show ?thesis by simp
    qed
  qed
qed

lemma sync_iter_full:
  assumes "length data = unat obs" "even (length data)"
    and "\<not> (bytes_to_read s > 0 \<and> bytes_to_read s < word_of_nat (length data))"
    and "length data \<le> room (file s)"
  shows "snd (sync_iter sr obs (Read_ok data) s) = None"
    and "file (fst (sync_iter sr obs (Read_ok data) s)) =
           appended (file s) (map (\<lambda>b. b - 128) data)"
    and "do_exit (fst (sync_iter sr obs (Read_ok data) s)) = do_exit s"
    and "bytes_to_read (fst (sync_iter sr obs (Read_ok data) s)) =
           (if bytes_to_read s > 0 then bytes_to_read s - word_of_nat (length data)
            else bytes_to_read s)"
proof -
  define n0 where "n0 = min (length data) (unat obs)"
  define buf where "buf = take n0 data @ drop n0 (buffer s)"
  define capped where "capped \<longleftrightarrow> bytes_to_read s > 0 \<and> bytes_to_read s < word_of_nat n0"
  define n_read where "n_read = (if capped then unat (bytes_to_read s) else n0)"
  define s1 where "s1 = s\<lparr>buffer := buf, do_exit := (capped \<or> do_exit s)\<rparr>"
  note unf = sync_iter_Read_ok [OF n0_def buf_def capped_def n_read_def s1_def, of sr]
  have n0: "n0 = length data" using assms(1) by (simp add: n0_def)
  have capped: "\<not> capped" using assms(3) by (simp add: capped_def n0)
  have n: "n_read = length data" using capped by (simp add: n_read_def n0)
  have tk: "take n_read buf = data" by (simp add: buf_def n n0)
  have le: "n_read \<le> length buf" by (simp add: buf_def n n0)
  have ev: "even n_read" using assms(2) n by simp
  have cv: "take n_read (sample_convert buf n_read) = map (\<lambda>b. b - 128) data"
    by (simp add: sample_convert_eq tk) (simp add: n)
  have s1: "file s1 = file s" "bytes_to_read s1 = bytes_to_read s" "do_exit s1 = do_exit s"
    using capped by (simp_all add: s1_def)
  have fw: "fwrite (map (\<lambda>b. b - 128) data) (file s) =
      (appended (file s) (map (\<lambda>b. b - 128) data), length data)"
    using assms(4) by (simp add: fwrite_fits)
  have nlt: "\<not> n_read < unat obs" using assms(1) n by simp
  obtain m ls where pm: "power_monitor sr buf n_read (mon s1) = Some (m, ls)"
    using power_monitor_even [OF ev le, of sr "mon s1"] by (metis surj_pair)
  define s2 where "s2 = s1\<lparr>mon := m, reports := reports s1 @ ls,
      buffer := sample_convert buf n_read,
      file := appended (file s) (map (\<lambda>b. b - 128) data)\<rparr>"
  have fw': "fwrite (take n_read (sample_convert buf n_read)) (file s1) =
      (appended (file s) (map (\<lambda>b. b - 128) data), n_read)"
    unfolding cv s1 fw by (simp add: n)
  have res: "sync_iter sr obs (Read_ok data) s =
      (if bytes_to_read s2 > 0
       then (s2\<lparr>bytes_to_read := bytes_to_read s2 - word_of_nat n_read\<rparr>, None)
       else (s2, None))"
    unfolding unf pm using nlt by (simp add: Let_def fw' s2_def)
  have s2: "file s2 = appended (file s) (map (\<lambda>b. b - 128) data)"
    "bytes_to_read s2 = bytes_to_read s" "do_exit s2 = do_exit s"
    using s1 by (simp_all add: s2_def)
  show "snd (sync_iter sr obs (Read_ok data) s) = None"
    by (simp add: res)
  show "file (fst (sync_iter sr obs (Read_ok data) s)) =
           appended (file s) (map (\<lambda>b. b - 128) data)"
    by (simp add: res s2)
  show "do_exit (fst (sync_iter sr obs (Read_ok data) s)) = do_exit s"
    by (simp add: res s2)
  show "bytes_to_read (fst (sync_iter sr obs (Read_ok data) s)) =
           (if bytes_to_read s > 0 then bytes_to_read s - word_of_nat (length data)
            else bytes_to_read s)"
    by (simp add: res s2 n)
qed

subsection \<open>The header in the output\<close>

lemma spec_body_lengths:
  "length (spec_fmt_body sr k) = 16" "length (spec_auxi_body fr now) = 52"
  by (simp_all add: spec_fmt_body_def spec_auxi_body_def spec_utc_def)

text \<open>
  C6. When the destination takes the 104 bytes, \<^verbatim>\<open>wave_header\<close> appends exactly the
  header of the specification: \<open>RIFF\<close> with size \<open>-1\<close> and type \<open>WAVE\<close>; \<open>fmt \<close> with a
  size field equal to the length of the format body (PCM code 1, 2 channels, the sample
  rate, the byte rate channels \<open>\<times>\<close> bytes per sample \<open>\<times>\<close> sample rate, the block
  alignment channels \<open>\<times>\<close> bytes per sample, the bits per sample); \<open>auxi\<close> with a size
  field equal to the length of the auxiliary body (the UTC start time, a zeroed stop
  time, the center frequency, zeros); and \<open>data\<close> with size \<open>-1\<close>. The sample width is a
  whole number \<open>k\<close> of bytes. In \<^verbatim>\<open>main\<close>, which passes 8 bits, the capture loop starts on
  the stream that holds the header, and whatever it writes comes after it.
\<close>

theorem wave_header_layout:
  assumes "104 \<le> room (file s)" and "bits = 8 * word_of_nat k" and "k < 8192"
  shows "wave_header (file s) samp_rate freq bits now =
           Inr (appended (file s) (spec_header samp_rate freq k now)) \<and>
         length (spec_fmt_body samp_rate k) = sizeof_fmt_t \<and>
         length (spec_auxi_body freq now) = sizeof_auxi_t \<and>
         length (spec_header samp_rate freq k now) = 104 \<and>
         capture_sync samp_rate freq out_block_size now rds s =
           Inr (sync_loop samp_rate out_block_size rds
                  (s\<lparr>file := appended (file s) (spec_header samp_rate freq 1 now)\<rparr>)) \<and>
         prefix (written (file s) @ spec_header samp_rate freq 1 now)
           (written (file (fst (sync_loop samp_rate out_block_size rds
                  (s\<lparr>file := appended (file s) (spec_header samp_rate freq 1 now)\<rparr>)))))"
proof -
  have h8: "wave_header (file s) samp_rate freq 8 now =
      Inr (appended (file s) (spec_header samp_rate freq 1 now))"
    using assms(1) by (intro wave_header_fits) simp_all
  have "prefix (written (file (s\<lparr>file := appended (file s) (spec_header samp_rate freq 1 now)\<rparr>)))
           (written (file (fst (sync_loop samp_rate out_block_size rds
                  (s\<lparr>file := appended (file s) (spec_header samp_rate freq 1 now)\<rparr>)))))"
    by (rule sync_loop_prefix)
  then have p: "prefix (written (file s) @ spec_header samp_rate freq 1 now)
           (written (file (fst (sync_loop samp_rate out_block_size rds
                  (s\<lparr>file := appended (file s) (spec_header samp_rate freq 1 now)\<rparr>)))))"
    by (simp add: written_appended)
  show ?thesis
    using wave_header_fits [OF assms] p
    by (simp add: spec_body_lengths spec_header_length capture_sync_def h8 sizeof_fmt_t_def
        sizeof_auxi_t_def sizeof_datetime_t_def)
qed


theorem wave_header_layout_witness:
  "wave_header (file (start_capture 0 \<lparr>written = [], room = 104\<rparr> [])) 2048000 100000000 8
      \<lparr>tm_year = 126, tm_mon = 9, tm_mday = 30, tm_hour = 12, tm_min = 34, tm_sec = 56\<rparr> =
     Inr \<lparr>written = spec_header 2048000 100000000 1
        \<lparr>tm_year = 126, tm_mon = 9, tm_mday = 30, tm_hour = 12, tm_min = 34, tm_sec = 56\<rparr>,
        room = 0\<rparr> \<and>
   spec_fmt_body 2048000 1 =
     [1, 0, 2, 0, 0, 0x40, 0x1F, 0, 0, 0x80, 0x3E, 0, 2, 0, 8, 0] \<and>
   le32 4096000 = [0, 0x80, 0x3E, 0] \<and> le32 (- 1) = [255, 255, 255, 255] \<and>
   tag ''RIFF'' = [0x52, 0x49, 0x46, 0x46]"
proof -
  have h: "104 \<le> room (file (start_capture 0 \<lparr>written = [], room = 104\<rparr> []))"
    "(8::32 word) = 8 * word_of_nat 1" "(1::nat) < 8192"
    by (simp_all add: start_capture_def)
  have e: "spec_fmt_body 2048000 1 =
      [1, 0, 2, 0, 0, 0x40, 0x1F, 0, 0, 0x80, 0x3E, 0, 2, 0, 8, 0]"
    "le32 4096000 = [0, 0x80, 0x3E, 0]" "tag ''RIFF'' = [0x52, 0x49, 0x46, 0x46]"
    by (simp_all add: spec_fmt_body_def le16_def le32_def tag_def)
  have m: "le32 (- 1) = [255, 255, 255, 255]"
    by code_simp
  from wave_header_layout [OF h, of 2048000 100000000
      "\<lparr>tm_year = 126, tm_mon = 9, tm_mday = 30, tm_hour = 12, tm_min = 34, tm_sec = 56\<rparr>"]
  have "wave_header (file (start_capture 0 \<lparr>written = [], room = 104\<rparr> [])) 2048000 100000000 8
      \<lparr>tm_year = 126, tm_mon = 9, tm_mday = 30, tm_hour = 12, tm_min = 34, tm_sec = 56\<rparr> =
     Inr (appended (file (start_capture 0 \<lparr>written = [], room = 104\<rparr> []))
        (spec_header 2048000 100000000 1
          \<lparr>tm_year = 126, tm_mon = 9, tm_mday = 30, tm_hour = 12, tm_min = 34, tm_sec = 56\<rparr>))"
    by blast
  then have "wave_header (file (start_capture 0 \<lparr>written = [], room = 104\<rparr> [])) 2048000 100000000 8
      \<lparr>tm_year = 126, tm_mon = 9, tm_mday = 30, tm_hour = 12, tm_min = 34, tm_sec = 56\<rparr> =
     Inr \<lparr>written = spec_header 2048000 100000000 1
        \<lparr>tm_year = 126, tm_mon = 9, tm_mday = 30, tm_hour = 12, tm_min = 34, tm_sec = 56\<rparr>,
        room = 0\<rparr>"
    by (simp add: appended_def start_capture_def spec_header_length)
  with e m show ?thesis
    by blast
qed

subsection \<open>The monitor on a buffer of pairs\<close>

lemma normalize_range: "normalize a = (real (unat a) - 128) / 128 \<and> - 1 \<le> normalize a \<and> normalize a < 1"
proof -
  have u: "unat a < 256"
    using unsigned_less [of a, where 'a = nat] by simp
  have n: "normalize a = (real (unat a) - 128) / 128"
  proof -
    have "real_of_int (uint a) = real (unat a)"
      by simp
    then show ?thesis
      unfolding normalize_def by simp
  qed
  have r: "real (unat a) < real 256" "0 \<le> real (unat a)"
    using u by (simp_all only: of_nat_less_iff of_nat_0_le_iff)
  show ?thesis
    unfolding n using r by (simp add: field_simps)
qed

lemma interval_elapsed_nat:
  "unat samp_rate < 2 ^ 31 \<Longrightarrow>
   interval_elapsed samp_rate m \<longleftrightarrow> unat samp_rate * nat interval_seconds < unat (interval m)"
proof -
  assume a: "unat samp_rate < 2 ^ 31"
  have "unat samp_rate * unat (2 :: 32 word) < 2 ^ LENGTH(32)"
    using a by simp
  then have "unat (samp_rate * 2) = unat samp_rate * 2"
    using unat_mult_lem [of samp_rate 2] by simp
  then show ?thesis
    by (simp add: interval_elapsed_def interval_seconds_def word_less_nat_alt)
qed

text \<open>
  C7, for a read of even length that lies within the buffer (the input the
  specification asks for). The loop treats every interleaved pair as the specification
  says: each byte is normalised as \<open>(raw - 128) / 128\<close>, which lies in \<open>[-1, 1)\<close>, and
  squared; the peak of the channel becomes the maximum so far and the square is added to
  the sum; the counter grows by the number of pairs, \<open>n_read div 2\<close>. When the counter
  then exceeds \<^verbatim>\<open>samp_rate * interval_seconds\<close> (a 32-bit product, equal to twice the
  sample rate below \<open>2 ^ 31\<close>) exactly one report is printed and the counter, both peaks
  and both sums are zero afterwards; otherwise nothing is printed.
\<close>

theorem power_monitor_pairs:
  assumes "even n_read" and "n_read \<le> length buf"
  shows "power_monitor samp_rate buf n_read m =
           Some (if samp_rate * 2 < interval (spec_accumulate (take n_read buf) m)
                 then (monitor_zero, [report_line (spec_accumulate (take n_read buf) m)])
                 else (spec_accumulate (take n_read buf) m, [])) \<and>
         length (pairs (take n_read buf)) = n_read div 2 \<and>
         accum_pair a b m = spec_pair (a, b) m \<and>
         normalize a = (real (unat a) - 128) / 128 \<and> - 1 \<le> normalize a \<and> normalize a < 1 \<and>
         monitor_zero = \<lparr>interval = 0, ipeak = 0, qpeak = 0, iavg = 0, qavg = 0\<rparr> \<and>
         (unat samp_rate < 2 ^ 31 \<longrightarrow>
            (samp_rate * 2 < interval m \<longleftrightarrow>
             unat samp_rate * nat interval_seconds < unat (interval m)))"
proof -
  have e: "interval_elapsed samp_rate x \<longleftrightarrow> samp_rate * 2 < interval x" for x
    by (simp add: interval_elapsed_def interval_seconds_def)
  have 1: "power_monitor samp_rate buf n_read m =
           Some (if samp_rate * 2 < interval (spec_accumulate (take n_read buf) m)
                 then (monitor_zero, [report_line (spec_accumulate (take n_read buf) m)])
                 else (spec_accumulate (take n_read buf) m, []))"
    using power_monitor_even [OF assms, of samp_rate m] by (simp only: e)
  have 2: "length (pairs (take n_read buf)) = n_read div 2"
    using assms(2) by (simp add: length_pairs)
  have 3: "unat samp_rate < 2 ^ 31 \<longrightarrow>
            (samp_rate * 2 < interval m \<longleftrightarrow>
             unat samp_rate * nat interval_seconds < unat (interval m))"
    using interval_elapsed_nat [of samp_rate m] unfolding e by blast
  have 4: "monitor_zero = \<lparr>interval = 0, ipeak = 0, qpeak = 0, iavg = 0, qavg = 0\<rparr>"
    by (simp add: monitor_zero_def)
  show ?thesis
    using 1 2 3 4 accum_pair_spec [of a b m] normalize_range [of a]
    by blast
qed

theorem power_monitor_pairs_witness:
  "power_monitor 0 [255, 0, 128, 192] 4 monitor_zero =
     Some (monitor_zero,
       [report_line \<lparr>interval = 2, ipeak = 16129 / 16384, qpeak = 1,
                      iavg = 16129 / 16384, qavg = 5 / 4\<rparr>]) \<and>
   power_monitor 1 [255, 0, 128, 192] 4 monitor_zero =
     Some (\<lparr>interval = 2, ipeak = 16129 / 16384, qpeak = 1,
             iavg = 16129 / 16384, qavg = 5 / 4\<rparr>, []) \<and>
   normalize 255 = 127 / 128 \<and> normalize 0 = - 1"
proof -
  have h: "even (4::nat)" "4 \<le> length [255, 0, 128, 192::byte]"
    by simp_all
  have e: "spec_accumulate (take 4 [255, 0, 128, 192]) monitor_zero =
      \<lparr>interval = 2, ipeak = 16129 / 16384, qpeak = 1, iavg = 16129 / 16384, qavg = 5 / 4\<rparr>"
    by (simp add: spec_accumulate_def spec_pair_def monitor_zero_def normalize_def
        power2_eq_square)
  have r: "unat (1::32 word) < 2 ^ 31"
    by simp
  have n: "normalize 255 = 127 / 128" "normalize 0 = - 1"
    using power_monitor_pairs [OF h, of 0 monitor_zero 255] power_monitor_pairs [OF h, of 0 monitor_zero 0]
    by simp_all
  have "power_monitor 0 [255, 0, 128, 192] 4 monitor_zero =
     Some (monitor_zero,
       [report_line \<lparr>interval = 2, ipeak = 16129 / 16384, qpeak = 1,
                      iavg = 16129 / 16384, qavg = 5 / 4\<rparr>])"
    using power_monitor_pairs [OF h, of 0 monitor_zero] unfolding e by simp
  moreover have "power_monitor 1 [255, 0, 128, 192] 4 monitor_zero =
     Some (\<lparr>interval = 2, ipeak = 16129 / 16384, qpeak = 1,
             iavg = 16129 / 16384, qavg = 5 / 4\<rparr>, [])"
    using power_monitor_pairs [OF h, of 1 monitor_zero] r unfolding e by simp
  ultimately show ?thesis
    using n by blast
qed

subsection \<open>Mean and peak at a report\<close>

lemma monitor_lines_instants:
  "monitor_lines samp_rate reads m = map report_line (reporting_instants samp_rate reads m)"
proof (induction reads arbitrary: m)
  case Nil
  show ?case by simp
next
  case (Cons rd reads)
  obtain buf n where rd: "rd = (buf, n)"
    by (cases rd)
  show ?case
  proof (cases "accumulate buf n m")
    case None
    then show ?thesis by (simp add: rd power_monitor_def)
  next
    case (Some m1)
    then show ?thesis by (simp add: rd power_monitor_def Cons.IH)
  qed
qed



lemma interval_spec_pair: "interval (spec_pair p m) = interval m"
  by (simp add: spec_pair_def)


lemma interval_fold: "interval (fold spec_pair ps m) = interval m"
  by (induction ps arbitrary: m) (simp_all add: interval_spec_pair)










subsection \<open>One buffer in either mode\<close>

lemma record_lengths:
  "length (riff_bytes (zero_riff\<lparr>riff_id := strncpy a 4, riff_type := strncpy b 4, riff_size := x\<rparr>)) = 12"
  "length (chunk_bytes (c\<lparr>chunk_id := strncpy a 4, chunk_size := y\<rparr>)) = 8"
  "length (fmt_bytes f) = 16"
  "length (auxi_bytes au) = 52"
  by (simp_all add: riff_bytes_def chunk_bytes_def fmt_bytes_def auxi_bytes_def
      datetime_bytes_def strncpy_def)

lemma write_or_exit_cases:
  "write_or_exit bs f = (if length bs \<le> room f then Inr (appended f bs) else Inl 1)"
  by (simp add: write_or_exit_fits write_or_exit_short)

lemma wave_header_short:
  assumes "room f < 104"
  shows "wave_header f samp_rate freq bits now = Inl 1"
  using assms
  unfolding wave_header_def Let_def
  by (simp add: write_or_exit_cases record_lengths room_appended)


lemma limited_le: "limited budget n \<le> n"
proof (cases "budget > 0 \<and> budget < word_of_nat n")
  case True
  then have "unat budget < unat (word_of_nat n :: 64 word)"
    by (simp add: word_less_nat_alt)
  also have "\<dots> \<le> n"
    by (simp add: unat_of_nat)
  finally show ?thesis
    using True by (simp add: limited_def)
next
  case False
  then show ?thesis by (auto simp: limited_def)
qed

lemma take_sample_convert:
  "n \<le> length data \<Longrightarrow>
   take n (sample_convert (data @ rest) n) = map (\<lambda>b. b - 128) (take n data)"
  by (simp add: sample_convert_eq)

lemma rtlsdr_callback_unfold:
  assumes "\<not> do_exit s"
    and "capped \<longleftrightarrow> bytes_to_read s > 0 \<and> bytes_to_read s < word_of_nat (length buf)"
    and "len = (if capped then unat (bytes_to_read s) else length buf)"
    and "s1 = (if capped then s\<lparr>do_exit := True, cancel_async := True\<rparr> else s)"
  shows "rtlsdr_callback buf True s =
        (let buf' = sample_convert buf len;
             (file', k) = fwrite (take len buf') (file s1);
             s2 = s1\<lparr>file := file'\<rparr>;
             s3 = (if k \<noteq> len then s2\<lparr>cancel_async := True\<rparr> else s2)
         in (buf', if bytes_to_read s3 > 0
                   then s3\<lparr>bytes_to_read := bytes_to_read s3 - word_of_nat len\<rparr>
                   else s3))"
  unfolding rtlsdr_callback_def assms(2-4) Let_def using assms(1) by simp

lemma rtlsdr_callback_live:
  fixes buf :: "byte list" and s :: capture
  assumes "\<not> do_exit s"
  defines "len \<equiv> limited (bytes_to_read s) (length buf)"
  defines "s1 \<equiv> (if len \<noteq> length buf then s\<lparr>do_exit := True, cancel_async := True\<rparr> else s)"
  defines "out \<equiv> map (\<lambda>b. b - 128) (take len buf)"
  defines "s3 \<equiv> s1\<lparr>file := appended (file s) (take (room (file s)) out),
                     cancel_async := (room (file s) < len \<or> cancel_async s1)\<rparr>"
  shows "rtlsdr_callback buf True s =
     (sample_convert buf len,
      if bytes_to_read s > 0 then s3\<lparr>bytes_to_read := bytes_to_read s - word_of_nat len\<rparr>
      else s3)"
proof -
  define capped where
    "capped \<longleftrightarrow> bytes_to_read s > 0 \<and> bytes_to_read s < word_of_nat (length buf)"
  have len: "len = (if capped then unat (bytes_to_read s) else length buf)"
    by (simp add: len_def limited_def capped_def)
  have le: "len \<le> length buf"
    unfolding len_def by (rule limited_le)
  have ne: "capped \<longleftrightarrow> len \<noteq> length buf"
  proof
    assume c: capped
    then have "unat (bytes_to_read s) < unat (word_of_nat (length buf) :: 64 word)"
      by (simp add: capped_def word_less_nat_alt)
    also have "\<dots> \<le> length buf"
      by (simp add: unat_of_nat)
    finally show "len \<noteq> length buf"
      using c by (simp add: len)
  next
    assume "len \<noteq> length buf"
    then show capped
      by (simp add: len split: if_splits)
  qed
  have s1: "s1 = (if capped then s\<lparr>do_exit := True, cancel_async := True\<rparr> else s)"
    by (simp add: s1_def ne)
  note unf = rtlsdr_callback_unfold [OF assms(1) capped_def len s1]
  have tk: "take len (sample_convert buf len) = out"
    using take_sample_convert [OF le, of "[]"] by (simp add: out_def)
  have lo: "length out = len"
    using le by (simp add: out_def)
  have f1: "file s1 = file s" "bytes_to_read s1 = bytes_to_read s"
    by (simp_all add: s1)
  have fw: "fwrite (take len (sample_convert buf len)) (file s1) =
      (appended (file s) (take (room (file s)) out), min len (room (file s)))"
    unfolding tk f1 fwrite_eq lo ..
  have k: "min len (room (file s)) \<noteq> len \<longleftrightarrow> room (file s) < len"
    by auto
  show ?thesis
    unfolding unf Let_def fw by (simp add: k s3_def f1)
qed


lemma sync_iter_live:
  fixes data :: "byte list" and s :: capture and sr obs :: "32 word"
  assumes "length data \<le> unat obs"
  defines "n \<equiv> limited (bytes_to_read s) (length data)"
  assumes "even n"
  defines "buf \<equiv> data @ drop (length data) (buffer s)"
  defines "acc \<equiv> spec_accumulate (take n data) (mon s)"
  defines "out \<equiv> map (\<lambda>b. b - 128) (take n data)"
  defines "s2 \<equiv> s\<lparr>buffer := sample_convert buf n,
                    do_exit := (n \<noteq> length data \<or> do_exit s),
                    mon := (if interval_elapsed sr acc then monitor_zero else acc),
                    reports := reports s @ (if interval_elapsed sr acc then [report_line acc] else []),
                    file := appended (file s) (take (room (file s)) out)\<rparr>"
  shows "sync_iter sr obs (Read_ok data) s =
     (if room (file s) < n then (s2, Some Short_write)
      else if n < unat obs then (s2, Some Short_read)
      else if bytes_to_read s > 0
      then (s2\<lparr>bytes_to_read := bytes_to_read s - word_of_nat n\<rparr>, None)
      else (s2, None))"
proof -
  define n0 where "n0 = min (length data) (unat obs)"
  define capped where "capped \<longleftrightarrow> bytes_to_read s > 0 \<and> bytes_to_read s < word_of_nat n0"
  define s1 where "s1 = s\<lparr>buffer := take n0 data @ drop n0 (buffer s),
      do_exit := (capped \<or> do_exit s)\<rparr>"
  have n0: "n0 = length data"
    using assms(1) by (simp add: n0_def)
  have n: "n = (if capped then unat (bytes_to_read s) else n0)"
    by (simp add: n_def limited_def capped_def n0)
  have b: "take n0 data @ drop n0 (buffer s) = buf"
    by (simp add: buf_def n0)
  note unf = sync_iter_Read_ok [OF n0_def refl capped_def n s1_def, of sr, unfolded b]
  have le: "n \<le> length data"
    unfolding n_def by (rule limited_le)
  have ne: "capped \<longleftrightarrow> n \<noteq> length data"
  proof
    assume c: capped
    then have "unat (bytes_to_read s) < unat (word_of_nat (length data) :: 64 word)"
      by (simp add: capped_def word_less_nat_alt n0)
    also have "\<dots> \<le> length data"
      by (simp add: unat_of_nat)
    finally show "n \<noteq> length data"
      using c by (simp add: n)
  next
    assume "n \<noteq> length data"
    then show capped
      by (simp add: n n0 split: if_splits)
  qed
  have lb: "n \<le> length buf"
    using le by (simp add: buf_def)
  have tb: "take n buf = take n data"
    using le by (simp add: buf_def)
  have pm: "power_monitor sr buf n (mon s1) =
      Some (if interval_elapsed sr acc then (monitor_zero, [report_line acc]) else (acc, []))"
    using power_monitor_even [OF assms(3) lb, of sr "mon s"]
    by (simp add: s1_def tb acc_def)
  have tk: "take n (sample_convert buf n) = out"
    using take_sample_convert [OF le] by (simp add: out_def buf_def)
  have lo: "length out = n"
    using le by (simp add: out_def)
  have f1: "file s1 = file s"
    by (simp add: s1_def)
  have fw: "fwrite (take n (sample_convert buf n)) (file s1) =
      (appended (file s) (take (room (file s)) out), min n (room (file s)))"
    unfolding tk f1 fwrite_eq lo ..
  have k: "min n (room (file s)) \<noteq> n \<longleftrightarrow> room (file s) < n"
    by auto
  show ?thesis
  proof (cases "interval_elapsed sr acc")
    case True
    show ?thesis
      unfolding unf pm Let_def fw
      by (simp add: True k s2_def s1_def b ne)
  next
    case False
    show ?thesis
      unfolding unf pm Let_def fw
      by (simp add: False k s2_def s1_def b ne)
  qed
qed

subsection \<open>Short writes\<close>

text \<open>
  C9. A short write is fatal and is not retried. If the destination takes fewer than the
  104 bytes of the header, \<^verbatim>\<open>wave_header\<close> leaves the program with status 1. In
  synchronous mode, if the destination takes fewer bytes than the pass writes, the loop
  is left with that pass for the reason \<open>Short_write\<close>, whatever reads would follow, and
  the output holds the bytes of the one partial write and nothing after them. In
  asynchronous mode the callback then calls \<^verbatim>\<open>rtlsdr_cancel_async\<close>.
\<close>

theorem short_write_stops_capture:
  "(room f < 104 \<longrightarrow> wave_header f samp_rate freq bits now = Inl 1) \<and>
   (\<not> do_exit s \<and> length data \<le> unat out_block_size \<and>
    even (limited (bytes_to_read s) (length data)) \<and>
    room (file s) < limited (bytes_to_read s) (length data) \<longrightarrow>
      snd (sync_loop samp_rate out_block_size (Read_ok data # rds) s) = Short_write \<and>
      sync_loop samp_rate out_block_size (Read_ok data # rds) s =
        sync_loop samp_rate out_block_size [Read_ok data] s \<and>
      written (file (fst (sync_loop samp_rate out_block_size (Read_ok data # rds) s))) =
        written (file s) @
        take (room (file s))
          (map (\<lambda>b. b - 128) (take (limited (bytes_to_read s) (length data)) data))) \<and>
   (\<not> do_exit s \<and> room (file s) < limited (bytes_to_read s) (length buf) \<longrightarrow>
      cancel_async (snd (rtlsdr_callback buf True s)))"
proof -
  have hdr: "wave_header f samp_rate freq bits now = Inl 1" if "room f < 104"
    using that by (rule wave_header_short)
  have cb: "cancel_async (snd (rtlsdr_callback buf True s))"
    if "\<not> do_exit s" "room (file s) < limited (bytes_to_read s) (length buf)"
    using that by (simp add: rtlsdr_callback_live)
  have sync: "snd (sync_loop samp_rate out_block_size (Read_ok data # rds) s) = Short_write \<and>
      sync_loop samp_rate out_block_size (Read_ok data # rds) s =
        sync_loop samp_rate out_block_size [Read_ok data] s \<and>
      written (file (fst (sync_loop samp_rate out_block_size (Read_ok data # rds) s))) =
        written (file s) @
        take (room (file s))
          (map (\<lambda>b. b - 128) (take (limited (bytes_to_read s) (length data)) data))"
    if a: "\<not> do_exit s" "length data \<le> unat out_block_size"
      "even (limited (bytes_to_read s) (length data))"
      "room (file s) < limited (bytes_to_read s) (length data)"
  proof -
    obtain s' where it: "sync_iter samp_rate out_block_size (Read_ok data) s = (s', Some Short_write)"
      and w: "written (file s') = written (file s) @
        take (room (file s))
          (map (\<lambda>b. b - 128) (take (limited (bytes_to_read s) (length data)) data))"
      using a(4) by (simp add: sync_iter_live [OF a(2,3)] written_appended)
    have 1: "sync_loop samp_rate out_block_size (Read_ok data # rds') s = (s', Short_write)"
      for rds'
      using a(1) it by simp
    show ?thesis
      by (simp only: 1 w fst_conv snd_conv simp_thms)
  qed
  show ?thesis
    using hdr cb sync by blast
qed


theorem short_write_stops_capture_witness:
  "wave_header \<lparr>written = [], room = 50\<rparr> 2048000 100000000 8
      \<lparr>tm_year = 126, tm_mon = 9, tm_mday = 30, tm_hour = 12, tm_min = 34, tm_sec = 56\<rparr> = Inl 1 \<and>
   snd (sync_loop 2048000 512 [Read_ok [1, 2, 3, 4], Read_ok [5, 6, 7, 8]]
          (start_capture 0 \<lparr>written = [], room = 1\<rparr> (replicate 512 0))) = Short_write \<and>
   written (file (fst (sync_loop 2048000 512 [Read_ok [1, 2, 3, 4], Read_ok [5, 6, 7, 8]]
          (start_capture 0 \<lparr>written = [], room = 1\<rparr> (replicate 512 0))))) = [129] \<and>
   cancel_async (snd (rtlsdr_callback [1, 2, 3, 4] True
          (start_capture 0 \<lparr>written = [], room = 1\<rparr> (replicate 512 0))))"
proof -
  let ?s = "start_capture 0 \<lparr>written = [], room = 1\<rparr> (replicate 512 0)"
  let ?f = "\<lparr>written = [], room = 50\<rparr>"
  have l: "limited (bytes_to_read ?s) (length [1, 2, 3, 4 :: byte]) = 4"
    by (simp add: limited_def start_capture_def)
  have h: "room ?f < 104" "\<not> do_exit ?s" "length [1, 2, 3, 4 :: byte] \<le> unat (512 :: 32 word)"
    "even (limited (bytes_to_read ?s) (length [1, 2, 3, 4 :: byte]))"
    "room (file ?s) < limited (bytes_to_read ?s) (length [1, 2, 3, 4 :: byte])"
    unfolding l by (simp_all add: start_capture_def)
  have w: "written (file ?s) @ take (room (file ?s))
      (map (\<lambda>b. b - 128) (take (limited (bytes_to_read ?s) (length [1, 2, 3, 4 :: byte]))
         [1, 2, 3, 4])) = [129]"
    unfolding l by (simp add: start_capture_def)
  from short_write_stops_capture [of ?f 2048000 100000000 8
      "\<lparr>tm_year = 126, tm_mon = 9, tm_mday = 30, tm_hour = 12, tm_min = 34, tm_sec = 56\<rparr>"
      ?s "[1, 2, 3, 4]" 512 "[Read_ok [5, 6, 7, 8]]" "[1, 2, 3, 4]"] h
  show ?thesis
    unfolding w by blast
qed

subsection \<open>The level that is printed\<close>

lemma db_not_decibel:
  assumes "0 < x" "x \<noteq> 1"
  shows "db x \<noteq> 10 * log 10 x"
proof
  assume e: "db x = 10 * log 10 x"
  have lx: "ln x \<noteq> 0"
    using assms by (simp add: ln_eq_zero_iff)
  have "exp (1::real) < 10"
    using exp_le by linarith
  then have "ln (exp 1) < ln (10::real)"
    by (subst ln_less_cancel_iff) simp_all
  then have l10: "1 < ln (10::real)"
    by simp
  from e have "ln x = ln x / ln 10"
    by (simp add: db_def log_def)
  then have "ln x * ln 10 = ln x"
    using l10 by (simp add: field_simps)
  then have "ln x * (ln 10 - 1) = 0"
    by (simp add: algebra_simps)
  with lx l10 show False
    by simp
qed

text \<open>
  C2 on the code. With a sample rate of 1 the first read of three pairs, of peak \<open>1/4\<close>
  and mean \<open>1/12\<close> in both channels, ends the interval. The line printed holds
  \<open>10 * ln (1/4)\<close> as peak level and \<open>10 * ln 3\<close> as peak-to-average ratio: the natural
  logarithm of \<^verbatim>\<open>logf\<close>, which differs from the \<open>10 * log10\<close> of the claim.
\<close>

theorem report_level_is_natural_log:
  "power_monitor 1 [192, 192, 128, 128, 128, 128] 6 monitor_zero =
     Some (monitor_zero,
           [\<lparr>peak_i = 10 * ln (1 / 4), peak_q = 10 * ln (1 / 4),
             par_i = 10 * ln 3, par_q = 10 * ln 3\<rparr>]) \<and>
   10 * ln (1 / 4 :: real) \<noteq> 10 * log 10 (1 / 4) \<and>
   10 * ln (3 :: real) \<noteq> 10 * log 10 3"
proof -
  let ?M = "\<lparr>interval = 3, ipeak = 1 / 4, qpeak = 1 / 4, iavg = 1 / 4, qavg = 1 / 4\<rparr>"
  have acc: "spec_accumulate (take 6 [192, 192, 128, 128, 128, 128]) monitor_zero = ?M"
    by (simp add: spec_accumulate_def spec_pair_def monitor_zero_def normalize_def
        power2_eq_square)
  have el: "interval_elapsed 1 ?M"
    by (simp add: interval_elapsed_def interval_seconds_def)
  have rl: "report_line ?M = \<lparr>peak_i = 10 * ln (1 / 4), peak_q = 10 * ln (1 / 4),
             par_i = 10 * ln 3, par_q = 10 * ln 3\<rparr>"
    by (simp add: report_line_def db_def imean_def qmean_def)
  have "even (6::nat)" "6 \<le> length [192, 192, 128, 128, 128, 128 :: byte]"
    by simp_all
  from power_monitor_even [OF this, of 1 monitor_zero]
  have "power_monitor 1 [192, 192, 128, 128, 128, 128] 6 monitor_zero =
     Some (monitor_zero, [report_line ?M])"
    unfolding acc using el by simp
  moreover have "10 * ln (1 / 4 :: real) \<noteq> 10 * log 10 (1 / 4)"
    using db_not_decibel [of "1 / 4"] by (simp add: db_def)
  moreover have "10 * ln (3 :: real) \<noteq> 10 * log 10 3"
    using db_not_decibel [of 3] by (simp add: db_def)
  ultimately show ?thesis
    unfolding rl by blast
qed

subsection \<open>A read of odd length\<close>

text \<open>
  C4 on the code. A read of one byte, 255, into a buffer of 512 bytes which held zeros:
  the loop takes the trailing byte as the sample of channel 0 and the stale byte after it
  as the sample of channel 1, so both peaks and both sums change, where the claim has the
  monitor read none of the two. A read of 513 bytes into a buffer of 513 bytes: the last
  pass of the loop reads index 513, outside the buffer.
\<close>

theorem trailing_byte_enters_statistics:
  "power_monitor 2048000 (255 # replicate 511 0) 1 monitor_zero =
     Some (\<lparr>interval = 0, ipeak = 16129 / 16384, qpeak = 1,
             iavg = 16129 / 16384, qavg = 1\<rparr>, []) \<and>
   power_monitor 2048000 (replicate 513 128) 513 monitor_zero = None"
proof -
  have "power_loop (255 # replicate 511 0) 1 0 monitor_zero =
      Some (accum_pair 255 0 monitor_zero)"
    by (subst power_loop.simps, simp, subst power_loop.simps, simp)
  then have "accumulate (255 # replicate 511 0) 1 monitor_zero =
      Some \<lparr>interval = 0, ipeak = 16129 / 16384, qpeak = 1, iavg = 16129 / 16384, qavg = 1\<rparr>"
    by (simp add: accumulate_def accum_pair_spec spec_pair_def monitor_zero_def normalize_def
        power2_eq_square)
  then have 1: "power_monitor 2048000 (255 # replicate 511 0) 1 monitor_zero =
     Some (\<lparr>interval = 0, ipeak = 16129 / 16384, qpeak = 1,
             iavg = 16129 / 16384, qavg = 1\<rparr>, [])"
    by (simp add: power_monitor_def interval_elapsed_def)
  have "power_loop (replicate 513 128) 513 0 monitor_zero = None"
    by (rule power_loop_odd_end) simp_all
  then have 2: "power_monitor 2048000 (replicate 513 128) 513 monitor_zero = None"
    by (simp add: power_monitor_def accumulate_def)
  from 1 2 show ?thesis
    by blast
qed

subsection \<open>The byte budget\<close>

text \<open>
  C1 on the code. The budget is 512 bytes (\<^verbatim>\<open>-n 256\<close>) and the block size is 512, so the
  first buffer uses the budget up exactly. The test \<^verbatim>\<open>bytes_to_read < n_read\<close> is then
  false, \<^verbatim>\<open>do_exit\<close> stays clear and the budget becomes 0, which means no limit: the
  second buffer is written in full, 1024 bytes are in the output, and the loop waits for
  a third read. The callback of asynchronous mode does the same and does not cancel.
\<close>

theorem exact_budget_is_overrun:
  "snd (sync_loop 2048000 512 [Read_ok (replicate 512 128), Read_ok (replicate 512 128)]
         (start_capture 512 \<lparr>written = [], room = 4096\<rparr> (replicate 512 0))) = Awaiting_read \<and>
   written (file (fst (sync_loop 2048000 512
         [Read_ok (replicate 512 128), Read_ok (replicate 512 128)]
         (start_capture 512 \<lparr>written = [], room = 4096\<rparr> (replicate 512 0))))) =
     replicate 512 0 @ replicate 512 0 \<and>
   \<not> do_exit (fst (sync_loop 2048000 512
         [Read_ok (replicate 512 128), Read_ok (replicate 512 128)]
         (start_capture 512 \<lparr>written = [], room = 4096\<rparr> (replicate 512 0)))) \<and>
   written (file (snd (rtlsdr_callback (replicate 512 128) True
      (snd (rtlsdr_callback (replicate 512 128) True
         (start_capture 512 \<lparr>written = [], room = 4096\<rparr> (replicate 512 0))))))) =
     replicate 512 0 @ replicate 512 0 \<and>
   \<not> cancel_async (snd (rtlsdr_callback (replicate 512 128) True
      (snd (rtlsdr_callback (replicate 512 128) True
         (start_capture 512 \<lparr>written = [], room = 4096\<rparr> (replicate 512 0))))))"
proof -
  let ?d = "replicate 512 (128 :: byte)"
  let ?S = "start_capture 512 \<lparr>written = [], room = 4096\<rparr> (replicate 512 0)"
  define s1 where "s1 = fst (sync_iter 2048000 512 (Read_ok ?d) ?S)"
  define s2 where "s2 = fst (sync_iter 2048000 512 (Read_ok ?d) s1)"
  have S: "\<not> do_exit ?S" "bytes_to_read ?S = 512" "file ?S = \<lparr>written = [], room = 4096\<rparr>"
    "\<not> cancel_async ?S"
    by (simp_all add: start_capture_def)
  have cv: "map (\<lambda>b. b - 128) ?d = replicate 512 0"
    by simp
  have a1: "length ?d = unat (512 :: 32 word)" "even (length ?d)"
    "\<not> (bytes_to_read ?S > 0 \<and> bytes_to_read ?S < word_of_nat (length ?d))"
    "length ?d \<le> room (file ?S)"
    by (simp_all add: S)
  note f1 = sync_iter_full [OF a1, of 2048000, folded s1_def, unfolded cv]
  have i1: "sync_iter 2048000 512 (Read_ok ?d) ?S = (s1, None)"
    using f1(1) by (simp add: s1_def prod_eq_iff)
  have b1: "bytes_to_read s1 = 0" "\<not> do_exit s1"
    "file s1 = \<lparr>written = replicate 512 0, room = 3584\<rparr>"
    using f1(2-4) by (simp_all add: S appended_def)
  have a2: "\<not> (bytes_to_read s1 > 0 \<and> bytes_to_read s1 < word_of_nat (length ?d))"
    "length ?d \<le> room (file s1)"
    by (simp_all add: b1)
  note f2 = sync_iter_full [OF a1(1,2) a2, of 2048000, folded s2_def, unfolded cv]
  have i2: "sync_iter 2048000 512 (Read_ok ?d) s1 = (s2, None)"
    using f2(1) by (simp add: s2_def prod_eq_iff)
  have b2: "\<not> do_exit s2" "written (file s2) = replicate 512 0 @ replicate 512 0"
    using f2(2-4) by (simp_all add: b1 appended_def)
  have loop: "sync_loop 2048000 512 [Read_ok ?d, Read_ok ?d] ?S = (s2, Awaiting_read)"
    using S(1) b1(2) b2(1) by (simp add: i1 i2)
  define c1 where "c1 = snd (rtlsdr_callback ?d True ?S)"
  have l1: "limited (bytes_to_read ?S) (length ?d) = 512"
    by (simp add: limited_def S)
  have c1: "\<not> do_exit c1" "bytes_to_read c1 = 0" "\<not> cancel_async c1"
    "file c1 = \<lparr>written = replicate 512 0, room = 3584\<rparr>"
    unfolding c1_def rtlsdr_callback_live [OF S(1)] l1
    by (simp_all add: S appended_def)
  have l2: "limited (bytes_to_read c1) (length ?d) = 512"
    by (simp add: limited_def c1)
  have c2: "written (file (snd (rtlsdr_callback ?d True c1))) = replicate 512 0 @ replicate 512 0"
    "\<not> cancel_async (snd (rtlsdr_callback ?d True c1))"
    unfolding rtlsdr_callback_live [OF c1(1)] l2
    by (simp_all add: c1 appended_def)
  show ?thesis
    unfolding loop using b2 c2 [unfolded c1_def] by simp
qed

subsection \<open>The two capture modes\<close>

lemma limited_neq:
  "limited budget n \<noteq> n \<longleftrightarrow> budget > 0 \<and> budget < word_of_nat n"
proof
  assume "limited budget n \<noteq> n"
  then show "budget > 0 \<and> budget < word_of_nat n"
    by (simp add: limited_def split: if_splits)
next
  assume c: "budget > 0 \<and> budget < word_of_nat n"
  then have "unat budget < unat (word_of_nat n :: 64 word)"
    by (simp add: word_less_nat_alt)
  also have "\<dots> \<le> n"
    by (simp add: unat_of_nat)
  finally show "limited budget n \<noteq> n"
    using c by (simp add: limited_def)
qed

lemma interval_spec_accumulate:
  "interval (spec_accumulate bs m) = interval m + word_of_nat (length bs div 2)"
  by (simp add: spec_accumulate_def Let_def interval_fold length_pairs)

lemma sync_iter_output:
  fixes data :: "byte list" and s :: capture and sr obs :: "32 word"
  assumes "length data \<le> unat obs"
    and "snd (sync_iter sr obs (Read_ok data) s) \<noteq> Some Out_of_bounds"
  defines "n \<equiv> limited (bytes_to_read s) (length data)"
  shows "file (fst (sync_iter sr obs (Read_ok data) s)) =
           appended (file s) (take (room (file s)) (map (\<lambda>b. b - 128) (take n data)))"
    and "do_exit (fst (sync_iter sr obs (Read_ok data) s)) \<longleftrightarrow> n \<noteq> length data \<or> do_exit s"
    and "take n (buffer (fst (sync_iter sr obs (Read_ok data) s))) =
           map (\<lambda>b. b - 128) (take n data)"
proof -
  define n0 where "n0 = min (length data) (unat obs)"
  define buf where "buf = take n0 data @ drop n0 (buffer s)"
  define capped where "capped \<longleftrightarrow> bytes_to_read s > 0 \<and> bytes_to_read s < word_of_nat n0"
  define s1 where "s1 = s\<lparr>buffer := buf, do_exit := (capped \<or> do_exit s)\<rparr>"
  have n0: "n0 = length data"
    using assms(1) by (simp add: n0_def)
  have n: "n = (if capped then unat (bytes_to_read s) else n0)"
    by (simp add: n_def limited_def capped_def n0)
  note unf = sync_iter_Read_ok [OF n0_def buf_def capped_def n s1_def, of sr]
  have le: "n \<le> length data"
    unfolding n_def by (rule limited_le)
  have ne: "capped \<longleftrightarrow> n \<noteq> length data"
    unfolding n_def capped_def n0 by (simp only: limited_neq)
  have b: "buf = data @ drop (length data) (buffer s)"
    by (simp add: buf_def n0)
  have tk: "take n (sample_convert buf n) = map (\<lambda>b. b - 128) (take n data)"
    unfolding b by (rule take_sample_convert [OF le])
  have lo: "length (map (\<lambda>b. b - 128) (take n data)) = n"
    using le by simp
  have f1: "file s1 = file s" "do_exit s1 \<longleftrightarrow> n \<noteq> length data \<or> do_exit s"
    by (simp_all add: s1_def ne)
  have fw: "fwrite (take n (sample_convert buf n)) (file s1) =
      (appended (file s) (take (room (file s)) (map (\<lambda>b. b - 128) (take n data))),
       min n (room (file s)))"
    unfolding tk f1 fwrite_eq lo ..
  obtain m ls where pm: "power_monitor sr buf n (mon s1) = Some (m, ls)"
  proof (cases "power_monitor sr buf n (mon s1)")
    case None
    then have "snd (sync_iter sr obs (Read_ok data) s) = Some Out_of_bounds"
      by (simp add: unf)
    with assms(2) show ?thesis by simp
  next
    case (Some r)
    with that show ?thesis by (cases r) simp
  qed
  define s2 where "s2 = s1\<lparr>mon := m, reports := reports s1 @ ls,
      buffer := sample_convert buf n,
      file := appended (file s) (take (room (file s)) (map (\<lambda>b. b - 128) (take n data)))\<rparr>"
  have res: "fst (sync_iter sr obs (Read_ok data) s) = s2 \<or>
      fst (sync_iter sr obs (Read_ok data) s) =
        s2\<lparr>bytes_to_read := bytes_to_read s2 - word_of_nat n\<rparr>"
    unfolding unf pm by (simp add: Let_def fw s2_def)
  have s2: "file s2 = appended (file s) (take (room (file s)) (map (\<lambda>b. b - 128) (take n data)))"
    "do_exit s2 \<longleftrightarrow> n \<noteq> length data \<or> do_exit s"
    "take n (buffer s2) = map (\<lambda>b. b - 128) (take n data)"
    using f1 tk by (simp_all add: s2_def)
  show "file (fst (sync_iter sr obs (Read_ok data) s)) =
           appended (file s) (take (room (file s)) (map (\<lambda>b. b - 128) (take n data)))"
    using res s2(1) by auto
  show "do_exit (fst (sync_iter sr obs (Read_ok data) s)) \<longleftrightarrow> n \<noteq> length data \<or> do_exit s"
    using res s2(2) by auto
  show "take n (buffer (fst (sync_iter sr obs (Read_ok data) s))) =
           map (\<lambda>b. b - 128) (take n data)"
    using res s2(3) by auto
qed

text \<open>
  C3, as the code has it. A buffer delivered while \<^verbatim>\<open>do_exit\<close> is clear is cut to the
  budget, converted by SampleConverter and handed to ContainerWriter in the same way in
  both modes: the output stream, the cancellation flag \<^verbatim>\<open>do_exit\<close> and the converted
  bytes are the same after the synchronous pass and after the callback (the synchronous
  pass is assumed to stay inside its buffer). PowerMonitor runs in synchronous mode
  only: the callback leaves the accumulators as they are and prints no report.
\<close>

theorem modes_write_the_same_bytes:
  assumes "\<not> do_exit s" and "length data \<le> unat out_block_size"
    and "snd (sync_iter samp_rate out_block_size (Read_ok data) s) \<noteq> Some Out_of_bounds"
  shows "file (fst (sync_iter samp_rate out_block_size (Read_ok data) s)) =
           file (snd (rtlsdr_callback data True s)) \<and>
         do_exit (fst (sync_iter samp_rate out_block_size (Read_ok data) s)) =
           do_exit (snd (rtlsdr_callback data True s)) \<and>
         take (limited (bytes_to_read s) (length data))
              (buffer (fst (sync_iter samp_rate out_block_size (Read_ok data) s))) =
           take (limited (bytes_to_read s) (length data)) (fst (rtlsdr_callback data True s)) \<and>
         written (file (snd (rtlsdr_callback data True s))) =
           written (file s) @ take (room (file s))
             (map (\<lambda>b. b - 128) (take (limited (bytes_to_read s) (length data)) data)) \<and>
         mon (snd (rtlsdr_callback data True s)) = mon s \<and>
         reports (snd (rtlsdr_callback data True s)) = reports s"
proof -
  let ?n = "limited (bytes_to_read s) (length data)"
  note so = sync_iter_output [OF assms(2,3)]
  note cb = rtlsdr_callback_live [OF assms(1), of data]
  have le: "?n \<le> length data"
    by (rule limited_le)
  have 1: "file (snd (rtlsdr_callback data True s)) =
      appended (file s) (take (room (file s)) (map (\<lambda>b. b - 128) (take ?n data)))"
    unfolding cb by simp
  have 2: "do_exit (snd (rtlsdr_callback data True s)) \<longleftrightarrow> ?n \<noteq> length data \<or> do_exit s"
    unfolding cb by simp
  have 3: "take ?n (fst (rtlsdr_callback data True s)) = map (\<lambda>b. b - 128) (take ?n data)"
    unfolding cb using take_sample_convert [OF le, of "[]"] by simp
  have 4: "mon (snd (rtlsdr_callback data True s)) = mon s"
    "reports (snd (rtlsdr_callback data True s)) = reports s"
    unfolding cb by simp_all
  show ?thesis
    unfolding so 3 4 by (simp add: 1 2 written_appended)
qed


theorem modes_write_the_same_bytes_witness:
  "file (fst (sync_iter 2048000 512 (Read_ok [255, 128, 1, 2])
           (start_capture 0 \<lparr>written = [], room = 4096\<rparr> (replicate 512 0)))) =
   file (snd (rtlsdr_callback [255, 128, 1, 2] True
           (start_capture 0 \<lparr>written = [], room = 4096\<rparr> (replicate 512 0)))) \<and>
   written (file (snd (rtlsdr_callback [255, 128, 1, 2] True
           (start_capture 0 \<lparr>written = [], room = 4096\<rparr> (replicate 512 0))))) =
     [127, 0, 129, 130] \<and>
   mon (snd (rtlsdr_callback [255, 128, 1, 2] True
           (start_capture 0 \<lparr>written = [], room = 4096\<rparr> (replicate 512 0)))) = monitor_zero"
proof -
  let ?S = "start_capture 0 \<lparr>written = [], room = 4096\<rparr> (replicate 512 0)"
  let ?d = "[255, 128, 1, 2 :: byte]"
  have l: "limited (bytes_to_read ?S) (length ?d) = 4"
    by (simp add: limited_def start_capture_def)
  have h1: "\<not> do_exit ?S" and h2: "length ?d \<le> unat (512 :: 32 word)"
    by (simp_all add: start_capture_def)
  have ev: "even (limited (bytes_to_read ?S) (length ?d))"
    unfolding l by simp
  have h3: "snd (sync_iter 2048000 512 (Read_ok ?d) ?S) \<noteq> Some Out_of_bounds"
    unfolding sync_iter_live [OF h2 ev] l by (simp add: start_capture_def)
  have w: "written (file ?S) @ take (room (file ?S))
      (map (\<lambda>b. b - 128) (take (limited (bytes_to_read ?S) (length ?d)) ?d)) =
      [127, 0, 129, 130]"
    unfolding l by (simp add: start_capture_def)
  have m: "mon ?S = monitor_zero"
    by (simp add: start_capture_def)
  from modes_write_the_same_bytes [OF h1 h2 h3] show ?thesis
    unfolding w m by blast
qed

text \<open>
  The claim as worded has the same side effects in both modes. After one full buffer of
  512 bytes the accumulators of synchronous mode have counted 256 pairs and those of
  asynchronous mode none.
\<close>

theorem async_mode_skips_monitor_counterexample:
  "mon (fst (sync_iter 2048000 512 (Read_ok (replicate 512 128))
           (start_capture 0 \<lparr>written = [], room = 4096\<rparr> (replicate 512 0)))) \<noteq>
   mon (snd (rtlsdr_callback (replicate 512 128) True
           (start_capture 0 \<lparr>written = [], room = 4096\<rparr> (replicate 512 0))))"
proof -
  let ?S = "start_capture 0 \<lparr>written = [], room = 4096\<rparr> (replicate 512 0)"
  let ?d = "replicate 512 (128 :: byte)"
  define acc where "acc = spec_accumulate (take 512 ?d) (mon ?S)"
  have l: "limited (bytes_to_read ?S) (length ?d) = 512"
    by (simp add: limited_def start_capture_def)
  have h1: "\<not> do_exit ?S" and h2: "length ?d \<le> unat (512 :: 32 word)"
    by (simp_all add: start_capture_def)
  have ev: "even (limited (bytes_to_read ?S) (length ?d))"
    unfolding l by simp
  have ia: "interval acc = 256"
    unfolding acc_def by (simp add: interval_spec_accumulate start_capture_def monitor_zero_def)
  have ne: "\<not> interval_elapsed 2048000 acc"
    by (simp add: interval_elapsed_def interval_seconds_def ia)
  have "mon (fst (sync_iter 2048000 512 (Read_ok ?d) ?S)) = acc"
    unfolding sync_iter_live [OF h2 ev] l acc_def [symmetric]
    using ne by (simp add: start_capture_def)
  then have 1: "interval (mon (fst (sync_iter 2048000 512 (Read_ok ?d) ?S))) = 256"
    by (simp only: ia)
  have "mon (snd (rtlsdr_callback ?d True ?S)) = mon ?S"
    unfolding rtlsdr_callback_live [OF h1] by simp
  then have 2: "interval (mon (snd (rtlsdr_callback ?d True ?S))) = 0"
    by (simp add: start_capture_def monitor_zero_def)
  show ?thesis
  proof
    assume "mon (fst (sync_iter 2048000 512 (Read_ok ?d) ?S)) =
      mon (snd (rtlsdr_callback ?d True ?S))"
    then have "interval (mon (fst (sync_iter 2048000 512 (Read_ok ?d) ?S))) =
      interval (mon (snd (rtlsdr_callback ?d True ?S)))"
      by (rule arg_cong)
    then show False
      unfolding 1 2 by simp
  qed
qed

subsection \<open>A budget below the delivered buffer\<close>

text \<open>
  When the budget is set and below the number of bytes delivered, the synchronous pass
  writes exactly the budget, sets \<^verbatim>\<open>do_exit\<close> and leaves the loop.
\<close>

lemma sync_loop_budget_cut:
  assumes "\<not> do_exit s" and "length data \<le> unat obs"
    and "0 < bytes_to_read s" and "bytes_to_read s < word_of_nat (length data)"
    and "even (unat (bytes_to_read s))" and "unat (bytes_to_read s) \<le> room (file s)"
  shows "snd (sync_loop sr obs (Read_ok data # rds) s) = Short_read"
    and "do_exit (fst (sync_loop sr obs (Read_ok data # rds) s))"
    and "written (file (fst (sync_loop sr obs (Read_ok data # rds) s))) =
           written (file s) @ map (\<lambda>b. b - 128) (take (unat (bytes_to_read s)) data)"
proof -
  have l: "limited (bytes_to_read s) (length data) = unat (bytes_to_read s)"
    using assms(3,4) by (simp add: limited_def)
  have ne: "limited (bytes_to_read s) (length data) \<noteq> length data"
    using assms(3,4) by (simp add: limited_neq)
  have lt: "unat (bytes_to_read s) < unat obs"
    using limited_le [of "bytes_to_read s" "length data"] ne assms(2) unfolding l by simp
  have ev: "even (limited (bytes_to_read s) (length data))"
    unfolding l by (rule assms(5))
  have le: "unat (bytes_to_read s) \<le> length data"
    using limited_le [of "bytes_to_read s" "length data"] unfolding l .
  obtain s' where it: "sync_iter sr obs (Read_ok data) s = (s', Some Short_read)"
    and d: "do_exit s'"
    and w: "written (file s') =
        written (file s) @ map (\<lambda>b. b - 128) (take (unat (bytes_to_read s)) data)"
    unfolding sync_iter_live [OF assms(2) ev] l
    using assms(6) lt ne [unfolded l] le by (simp add: written_appended)
  have 1: "sync_loop sr obs (Read_ok data # rds) s = (s', Short_read)"
    using assms(1) it by simp
  show "snd (sync_loop sr obs (Read_ok data # rds) s) = Short_read"
    "do_exit (fst (sync_loop sr obs (Read_ok data # rds) s))"
    "written (file (fst (sync_loop sr obs (Read_ok data # rds) s))) =
           written (file s) @ map (\<lambda>b. b - 128) (take (unat (bytes_to_read s)) data)"
    by (simp_all only: 1 d w fst_conv snd_conv)
qed

end
